theory Spec2Isabelle
  imports Main "HOL-Library.FSet"
begin

section \<open>Strings and the path functions of \<^verbatim>\<open>os.path\<close>\<close>

text \<open>
  A Python \<^verbatim>\<open>str\<close> is modelled as a \<^typ>\<open>string\<close>: a list of characters, each
  standing for the code point of the same number (U+0000 to U+00FF). Paths are POSIX
  paths: \<^verbatim>\<open>os.path\<close> is CPython's \<^verbatim>\<open>posixpath\<close>, whose separator is the slash.
  The functions below follow \<^verbatim>\<open>posixpath.py\<close> and \<^verbatim>\<open>genericpath.py\<close> line by line.
\<close>

text \<open>\<^verbatim>\<open>p.rfind(c)\<close>: the index of the last occurrence of \<open>c\<close>, or \<open>-1\<close>.\<close>

definition rfind :: "char \<Rightarrow> string \<Rightarrow> int" where
  "rfind c p =
     (if c \<in> set p
      then int (length p) - 1 - int (length (takeWhile (\<lambda>x. x \<noteq> c) (rev p)))
      else - 1)"

text \<open>\<^verbatim>\<open>p.startswith(c)\<close> and \<^verbatim>\<open>p.endswith(c)\<close> for a one-character \<open>c\<close>.\<close>

definition startswith :: "string \<Rightarrow> char \<Rightarrow> bool" where
  "startswith p c = (case p of [] \<Rightarrow> False | x # _ \<Rightarrow> x = c)"

definition endswith :: "string \<Rightarrow> char \<Rightarrow> bool" where
  "endswith p c = (p \<noteq> [] \<and> last p = c)"

text \<open>
  \<^verbatim>\<open>os.path.basename(p)\<close>:
  \<^verbatim>\<open>i = p.rfind('/') + 1; return p[i:]\<close>
\<close>

definition basename :: "string \<Rightarrow> string" where
  "basename p = drop (nat (rfind CHR ''/'' p + 1)) p"

text \<open>
  \<^verbatim>\<open>os.path.dirname(p)\<close>:
  \<^verbatim>\<open>i = p.rfind('/') + 1; head = p[:i]\<close>;
  \<^verbatim>\<open>if head and head != '/' * len(head): head = head.rstrip('/')\<close>
\<close>

definition rstrip_char :: "char \<Rightarrow> string \<Rightarrow> string" where
  "rstrip_char c p = rev (dropWhile (\<lambda>x. x = c) (rev p))"

definition dirname :: "string \<Rightarrow> string" where
  "dirname p =
     (let head = take (nat (rfind CHR ''/'' p + 1)) p
      in if head \<noteq> [] \<and> head \<noteq> replicate (length head) CHR ''/''
         then rstrip_char CHR ''/'' head else head)"

text \<open>
  \<^verbatim>\<open>os.path.splitext(p)\<close> (\<^verbatim>\<open>genericpath._splitext\<close>): the extension starts at the
  last dot, provided that dot comes after the last slash and some character between
  the slash and the dot is not a dot (leading dots of the basename are skipped).
\<close>

definition splitext :: "string \<Rightarrow> string \<times> string" where
  "splitext p =
     (let sepIndex = rfind CHR ''/'' p;
          dotIndex = rfind CHR ''.'' p
      in if dotIndex > sepIndex \<and>
            list_ex (\<lambda>c. c \<noteq> CHR ''.'')
              (take (nat (dotIndex - (sepIndex + 1))) (drop (nat (sepIndex + 1)) p))
         then (take (nat dotIndex) p, drop (nat dotIndex) p)
         else (p, []))"

text \<open>
  \<^verbatim>\<open>os.path.join(a, b)\<close>: an absolute \<open>b\<close> replaces the path so far; otherwise \<open>b\<close> is
  appended, after a slash unless the path is empty or already ends in one.
  \<^verbatim>\<open>os.path.join(a, b, c)\<close> does the same for \<open>c\<close> on the result.
\<close>

definition join :: "string \<Rightarrow> string \<Rightarrow> string" where
  "join path b =
     (if startswith b CHR ''/'' then b
      else if path = [] \<or> endswith path CHR ''/'' then path @ b
      else path @ ''/'' @ b)"

definition join3 :: "string \<Rightarrow> string \<Rightarrow> string \<Rightarrow> string" where
  "join3 a b c = join (join a b) c"

section \<open>The operation record\<close>

text \<open>
  The planners emit dictionaries with the keys \<^verbatim>\<open>source\<close>, \<^verbatim>\<open>destination\<close> and
  \<^verbatim>\<open>link_type\<close>; \<^verbatim>\<open>compute_operations\<close> adds \<^verbatim>\<open>folder_name\<close> and
  \<^verbatim>\<open>new_file_name\<close>. The link type is the string the code stores.
\<close>

record operation =
  source :: string
  destination :: string
  link_type :: string

record meta_operation = operation +
  folder_name :: string
  new_file_name :: string

text \<open>Exceptions are values. \<open>OSError\<close> carries the text of the exception.\<close>

datatype exn = OSError string

section \<open>Planning by date\<close>

text \<open>
  \<^verbatim>\<open>process_files_by_date(file_paths, output_path, ...)\<close>. The parameters
  \<^verbatim>\<open>dry_run\<close>, \<^verbatim>\<open>silent\<close> and \<^verbatim>\<open>log_file\<close> are never read by the body and are left
  out. What the function asks of its environment is a parameter: \<open>getmtime\<close> is
  \<^verbatim>\<open>os.path.getmtime\<close>, which raises \<^verbatim>\<open>OSError\<close> for a path it cannot stat (here
  \<open>Inl\<close>); \<open>fromtimestamp\<close> is \<^verbatim>\<open>datetime.datetime.fromtimestamp\<close>, which raises
  for a time stamp outside the range of the platform; \<open>year\<close> and \<open>month\<close> are
  \<^verbatim>\<open>strftime('%Y')\<close> and \<^verbatim>\<open>strftime('%B')\<close> of the date.
  The loop appends to \<^verbatim>\<open>operations\<close>; an exception leaves the call at once and the
  list built so far is lost with the frame.
\<close>

fun by_date_loop ::
  "(string \<Rightarrow> exn + 't) \<Rightarrow> ('t \<Rightarrow> exn + 'd) \<Rightarrow> ('d \<Rightarrow> string) \<Rightarrow> ('d \<Rightarrow> string) \<Rightarrow> string \<Rightarrow>
   string list \<Rightarrow> operation list \<Rightarrow> exn + operation list" where
  "by_date_loop getmtime fromtimestamp year month output_path [] operations = Inr operations"
| "by_date_loop getmtime fromtimestamp year month output_path (file_path # rest) operations =
     (case getmtime file_path of
        Inl e \<Rightarrow> Inl e
      | Inr mod_time \<Rightarrow>
          (case fromtimestamp mod_time of
             Inl e \<Rightarrow> Inl e
           | Inr mod_datetime \<Rightarrow>
               (let dir_path = join3 output_path (year mod_datetime) (month mod_datetime);
                    new_file_name = basename file_path;
                    new_file_path = join dir_path new_file_name;
                    operation = \<lparr>source = file_path, destination = new_file_path,
                                 link_type = ''hardlink''\<rparr>
                in by_date_loop getmtime fromtimestamp year month output_path rest
                     (operations @ [operation]))))"

definition process_files_by_date ::
  "(string \<Rightarrow> exn + 't) \<Rightarrow> ('t \<Rightarrow> exn + 'd) \<Rightarrow> ('d \<Rightarrow> string) \<Rightarrow> ('d \<Rightarrow> string) \<Rightarrow>
   string list \<Rightarrow> string \<Rightarrow> exn + operation list" where
  "process_files_by_date getmtime fromtimestamp year month file_paths output_path =
     by_date_loop getmtime fromtimestamp year month output_path file_paths []"

section \<open>Characters\<close>

text \<open>
  \<^verbatim>\<open>str.lower()\<close> on the code points below 256: the capital letters A to Z and the
  capital letters of Latin-1 (U+00C0 to U+00DE, without the multiplication sign U+00D7)
  move up by 32; every other character stays.
\<close>

definition lower_char :: "char \<Rightarrow> char" where
  "lower_char c =
     (let n = (of_char c :: nat)
      in if (65 \<le> n \<and> n \<le> 90) \<or> (192 \<le> n \<and> n \<le> 214) \<or> (216 \<le> n \<and> n \<le> 222)
         then char_of (n + 32) else c)"

definition lower :: "string \<Rightarrow> string" where
  "lower s = map lower_char s"

section \<open>The name sanitizer\<close>

text \<open>
  The character classes of Python's \<^verbatim>\<open>re\<close> and \<^verbatim>\<open>str\<close> on the code points below
  256. \<^verbatim>\<open>\w\<close> is \<^verbatim>\<open>str.isalnum\<close> or the underscore: the digits, the letters A to Z
  and a to z, and of Latin-1 the ordinal indicators (U+00AA, U+00BA), the superscript
  digits (U+00B2, U+00B3, U+00B9), the micro sign (U+00B5), the fractions (U+00BC to
  U+00BE) and the letters (U+00C0 to U+00FF without U+00D7 and U+00F7). \<^verbatim>\<open>\s\<close>, which
  is also what \<^verbatim>\<open>str.strip()\<close> strips, is U+0009 to U+000D, U+001C to U+0020,
  U+0085 and U+00A0.
\<close>

definition is_alnum :: "char \<Rightarrow> bool" where
  "is_alnum c =
     (let n = (of_char c :: nat)
      in (48 \<le> n \<and> n \<le> 57) \<or> (65 \<le> n \<and> n \<le> 90) \<or> (97 \<le> n \<and> n \<le> 122)
         \<or> n = 170 \<or> (178 \<le> n \<and> n \<le> 179) \<or> n = 181 \<or> (185 \<le> n \<and> n \<le> 186)
         \<or> (188 \<le> n \<and> n \<le> 190) \<or> (192 \<le> n \<and> n \<le> 214) \<or> (216 \<le> n \<and> n \<le> 246)
         \<or> 248 \<le> n)"

definition is_word :: "char \<Rightarrow> bool" where
  "is_word c = (is_alnum c \<or> c = CHR ''_'')"

definition is_space :: "char \<Rightarrow> bool" where
  "is_space c =
     (let n = (of_char c :: nat)
      in (9 \<le> n \<and> n \<le> 13) \<or> (28 \<le> n \<and> n \<le> 32) \<or> n = 133 \<or> n = 160)"

text \<open>The alternatives of the first regular expression, in the order of the pattern.\<close>

definition stop_words :: "string list" where
  "stop_words =
     [''jpg'', ''jpeg'', ''png'', ''gif'', ''bmp'', ''txt'', ''md'', ''pdf'', ''docx'',
      ''xls'', ''xlsx'', ''csv'', ''ppt'', ''pptx'', ''image'', ''picture'', ''photo'',
      ''this'', ''that'', ''these'', ''those'', ''here'', ''there'', ''please'', ''note'',
      ''additional'', ''notes'', ''folder'', ''name'', ''sure'', ''heres'', ''a'', ''an'',
      ''the'', ''and'', ''of'', ''in'', ''to'', ''for'', ''on'', ''with'', ''your'',
      ''answer'', ''should'', ''be'', ''only'', ''summary'', ''summarize'', ''text'',
      ''category'']"

text \<open>
  \<^verbatim>\<open>\b\<close> between a character that is a word character or not (\<open>prev\<close>; there is
  none before the start) and the rest of the string: it holds when exactly one side
  is a word character.
\<close>

definition at_boundary :: "bool \<Rightarrow> string \<Rightarrow> bool" where
  "at_boundary prev rest = (prev \<noteq> (case rest of [] \<Rightarrow> False | c # _ \<Rightarrow> is_word c))"

text \<open>
  One alternative, matched at the start of \<open>s\<close> under \<^verbatim>\<open>re.IGNORECASE\<close>: a character
  of the text matches a (lower-case) letter of the pattern when its lower case is
  that letter. The result is the rest of the string and whether the last character
  consumed is a word character.
\<close>

fun match_literal :: "string \<Rightarrow> bool \<Rightarrow> string \<Rightarrow> (bool \<times> string) option" where
  "match_literal [] prev s = Some (prev, s)"
| "match_literal (l # w) prev [] = None"
| "match_literal (l # w) prev (c # s) =
     (if lower_char c = l then match_literal w (is_word c) s else None)"

text \<open>The group followed by \<^verbatim>\<open>\b\<close>: the first alternative, in order, after which a
  boundary holds.\<close>

fun match_alternatives :: "string list \<Rightarrow> bool \<Rightarrow> string \<Rightarrow> (bool \<times> string) option" where
  "match_alternatives [] prev s = None"
| "match_alternatives (w # ws) prev s =
     (case match_literal w prev s of
        Some (last_is_word, rest) \<Rightarrow>
          if at_boundary last_is_word rest then Some (last_is_word, rest)
          else match_alternatives ws prev s
      | None \<Rightarrow> match_alternatives ws prev s)"

text \<open>The whole pattern \<^verbatim>\<open>\b(jpg|jpeg|...)\b\<close> at one position.\<close>

definition match_stop_word :: "bool \<Rightarrow> string \<Rightarrow> (bool \<times> string) option" where
  "match_stop_word prev s =
     (if at_boundary prev s then match_alternatives stop_words prev s else None)"

text \<open>
  \<^verbatim>\<open>re.sub(pattern, '', name, flags=re.IGNORECASE)\<close>: scan from the left; where the
  pattern matches, drop the match and go on after it; elsewhere keep the character.
\<close>

function remove_stop_words :: "bool \<Rightarrow> string \<Rightarrow> string" where
  "remove_stop_words prev [] = []"
| "remove_stop_words prev (c # cs) =
     (case match_stop_word prev (c # cs) of
        Some (last_is_word, rest) \<Rightarrow> remove_stop_words last_is_word rest
      | None \<Rightarrow> c # remove_stop_words (is_word c) cs)"
  by pat_completeness auto

text \<open>Termination: a match consumes one of the alternatives, and none is empty.\<close>

lemma match_literal_length:
  "match_literal w prev s = Some (b, rest) \<Longrightarrow> length s = length w + length rest"
  by (induction w prev s rule: match_literal.induct) (auto split: if_splits)

lemma match_alternatives_length:
  "match_alternatives ws prev s = Some (b, rest) \<Longrightarrow>
   \<exists>w \<in> set ws. length s = length w + length rest"
  by (induction ws) (auto split: option.splits if_splits dest: match_literal_length)

lemma stop_words_nonempty: "[] \<notin> set stop_words"
  by (simp add: stop_words_def)

lemma match_stop_word_shorter:
  assumes "match_stop_word prev s = Some (b, rest)"
  shows "length rest < length s"
proof -
  from assms have "match_alternatives stop_words prev s = Some (b, rest)"
    by (simp add: match_stop_word_def split: if_splits)
  from match_alternatives_length[OF this] obtain w where
    "w \<in> set stop_words" "length s = length w + length rest" by blast
  with stop_words_nonempty show ?thesis by (cases w) auto
qed

termination remove_stop_words
  by (relation "measure (\<lambda>(prev, s). length s)") (auto dest: match_stop_word_shorter)

declare remove_stop_words.simps [simp del]

text \<open>\<^verbatim>\<open>s.strip()\<close> and \<^verbatim>\<open>s.strip('_')\<close>.\<close>

definition strip_space :: "string \<Rightarrow> string" where
  "strip_space s = rev (dropWhile is_space (rev (dropWhile is_space s)))"

definition strip_char :: "char \<Rightarrow> string \<Rightarrow> string" where
  "strip_char c s = rev (dropWhile (\<lambda>x. x = c) (rev (dropWhile (\<lambda>x. x = c) s)))"

text \<open>\<^verbatim>\<open>re.sub(r'[\s_]+', '_', s)\<close>: every maximal run of white space and underscores
  becomes one underscore.\<close>

definition is_separator :: "char \<Rightarrow> bool" where
  "is_separator c = (is_space c \<or> c = CHR ''_'')"

function collapse_separators :: "string \<Rightarrow> string" where
  "collapse_separators [] = []"
| "collapse_separators (c # cs) =
     (if is_separator c then CHR ''_'' # collapse_separators (dropWhile is_separator cs)
      else c # collapse_separators cs)"
  by pat_completeness auto

termination collapse_separators
  by (relation "measure length") (auto simp: less_Suc_eq_le length_dropWhile_le)

text \<open>\<^verbatim>\<open>s.split(sep)\<close> for a one-character separator: the pieces between the
  separators, empty ones included; the empty string gives one empty piece.\<close>

fun split_on :: "char \<Rightarrow> string \<Rightarrow> string list" where
  "split_on sep [] = [[]]"
| "split_on sep (c # cs) =
     (if c = sep then [] # split_on sep cs
      else (case split_on sep cs of
              w # ws \<Rightarrow> (c # w) # ws
            | [] \<Rightarrow> [[c]]))"

text \<open>\<^verbatim>\<open>sep.join(words)\<close>.\<close>

fun str_join :: "string \<Rightarrow> string list \<Rightarrow> string" where
  "str_join sep [] = []"
| "str_join sep [w] = w"
| "str_join sep (w # v # ws) = w @ sep @ str_join sep (v # ws)"

text \<open>The slice \<^verbatim>\<open>xs[:n]\<close> for an integer \<open>n\<close>: a negative \<open>n\<close> counts from the
  end.\<close>

definition py_take :: "int \<Rightarrow> 'a list \<Rightarrow> 'a list" where
  "py_take n xs = (if 0 \<le> n then take (nat n) xs else take (nat (int (length xs) + n)) xs)"

text \<open>
  \<^verbatim>\<open>sanitize_filename(name, max_length, max_words)\<close>. The Python reassigns \<^verbatim>\<open>name\<close>
  and \<^verbatim>\<open>sanitized\<close>; the stages are numbered here.
\<close>

definition sanitize_filename :: "string \<Rightarrow> int \<Rightarrow> int \<Rightarrow> string" where
  "sanitize_filename name max_length max_words =
     (let name1 = fst (splitext name);
          name2 = remove_stop_words False name1;
          sanitized1 = strip_space (filter (\<lambda>c. is_word c \<or> is_space c) name2);
          sanitized2 = collapse_separators sanitized1;
          sanitized3 = lower sanitized2;
          sanitized4 = strip_char CHR ''_'' sanitized3;
          words = split_on CHR ''_'' sanitized4;
          limited_words = py_take max_words (filter (\<lambda>word. word \<noteq> []) words);
          limited_name = str_join ''_'' limited_words
      in if limited_name \<noteq> [] then py_take max_length limited_name else ''untitled'')"

section \<open>Planning by type\<close>

text \<open>The taxonomy, in the order of the dictionary literal (a Python dictionary keeps
  insertion order).\<close>

definition file_categories :: "(string \<times> (string \<times> string list) list) list" where
  "file_categories =
   [(''images'',
      [(''raster_images'',
         [''.jpg'', ''.jpeg'', ''.png'', ''.gif'', ''.bmp'', ''.tiff'', ''.tif'',
          ''.webp'', ''.heic'', ''.heif'', ''.raw'', ''.cr2'', ''.nef'', ''.arw'']),
       (''vector_images'',
         [''.svg'', ''.ai'', ''.eps'', ''.cdr'']),
       (''photoshop'',
         [''.psd'', ''.psb'', ''.xcf'']),
       (''icons'',
         [''.ico'', ''.icns''])]),
    (''documents'',
      [(''plain_text'',
         [''.txt'', ''.md'', ''.markdown'', ''.rst'', ''.rtf'', ''.tex'', ''.log'']),
       (''word_processing'',
         [''.doc'', ''.docx'', ''.odt'', ''.pages'', ''.wpd'']),
       (''spreadsheets'',
         [''.xls'', ''.xlsx'', ''.xlsm'', ''.ods'', ''.numbers'', ''.csv'', ''.tsv'']),
       (''presentations'',
         [''.ppt'', ''.pptx'', ''.odp'', ''.key'']),
       (''pdf'',
         [''.pdf'']),
       (''ebooks'',
         [''.epub'', ''.mobi'', ''.azw'', ''.azw3'', ''.fb2'', ''.djvu'', ''.cbr'',
          ''.cbz'']),
       (''technical_docs'',
         [''.xml'', ''.xhtml'', ''.dtd'', ''.sgml'', ''.yaml'', ''.yml'', ''.json'',
          ''.toml''])]),
    (''audio'',
      [(''music'',
         [''.mp3'', ''.aac'', ''.flac'', ''.alac'', ''.wav'', ''.wma'', ''.ogg'',
          ''.opus'']),
       (''voice'',
         [''.m4a'', ''.amr'', ''.aiff'', ''.aif'', ''.aifc'']),
       (''production'',
         [''.mid'', ''.midi'', ''.aup'', ''.sesx'', ''.band''])]),
    (''video'',
      [(''common'',
         [''.mp4'', ''.mov'', ''.avi'', ''.mkv'', ''.wmv'', ''.flv'', ''.webm'', ''.m4v'',
          ''.mpg'', ''.mpeg'', ''.3gp'']),
       (''professional'',
         [''.mxf'', ''.r3d'', ''.braw'', ''.prproj'', ''.fcpx'', ''.dav''])]),
    (''archives'',
      [(''common'',
         [''.zip'', ''.rar'', ''.7z'', ''.tar'', ''.gz'', ''.bz2'', ''.xz'', ''.tgz'',
          ''.iso''])]),
    (''code'',
      [(''scripts'',
         [''.py'', ''.js'', ''.php'', ''.rb'', ''.pl'', ''.sh'', ''.bash'', ''.ps1'',
          ''.bat'', ''.cmd'']),
       (''markup'',
         [''.html'', ''.htm'', ''.css'', ''.scss'', ''.sass'', ''.less'']),
       (''compiled'',
         [''.c'', ''.cpp'', ''.h'', ''.hpp'', ''.cs'', ''.java'', ''.go'', ''.rs'',
          ''.swift'']),
       (''data_science'',
         [''.ipynb'', ''.r'', ''.rmd'', ''.jl'']),
       (''config'',
         [''.ini'', ''.conf'', ''.cfg'', ''.properties''])]),
    (''data'',
      [(''databases'',
         [''.db'', ''.sqlite'', ''.sqlite3'', ''.mdb'', ''.accdb'', ''.sql'', ''.bak'']),
       (''data_formats'',
         [''.dat'', ''.sav'', ''.bin'', ''.pkl'', ''.parquet'', ''.avro'', ''.orc''])]),
    (''executables'',
      [(''programs'',
         [''.exe'', ''.app'', ''.dmg'', ''.pkg'', ''.deb'', ''.rpm'', ''.msi'', ''.apk'',
          ''.ipa'']),
       (''libraries'',
         [''.dll'', ''.so'', ''.dylib''])]),
    (''design'',
      [(''3d_models'',
         [''.obj'', ''.stl'', ''.fbx'', ''.blend'', ''.3ds'', ''.c4d'', ''.max'']),
       (''cad'',
         [''.dwg'', ''.dxf'', ''.skp'']),
       (''design'',
         [''.indd'', ''.sketch'', ''.fig'', ''.xd''])]),
    (''fonts'',
      [(''font_files'',
         [''.ttf'', ''.otf'', ''.woff'', ''.woff2'', ''.eot''])]),
    (''web'',
      [(''web_assets'',
         [''.asp'', ''.aspx'', ''.jsp'', ''.php'', ''.htaccess'', ''.htpasswd'', ''.url'',
          ''.webloc''])]),
    (''system'',
      [(''system_files'',
         [''.sys'', ''.tmp'', ''.cache'', ''.swp'', ''.bak'', ''.old'', ''.log'', ''.lnk'',
          ''.shortcut'', ''.plist''])])]"

text \<open>
  \<^verbatim>\<open>single_subcategory_mains\<close>: the main categories with exactly one subcategory,
  collected by a loop over the items of the dictionary.
\<close>

definition single_subcategory_mains :: "string list" where
  "single_subcategory_mains =
     fold (\<lambda>(main_category, subcategories) acc.
             if length subcategories = 1 then acc @ [main_category] else acc)
          file_categories []"

text \<open>
  \<^verbatim>\<open>extension_to_category\<close>: the flat dictionary built by the three nested loops.
  Every assignment \<^verbatim>\<open>extension_to_category[ext] = (main_category, subcategory)\<close>
  overwrites an earlier one for the same extension.
\<close>

definition extension_to_category :: "string \<rightharpoonup> string \<times> string" where
  "extension_to_category =
     fold (\<lambda>(main_category, subcategories).
             fold (\<lambda>(subcategory, extensions).
                     fold (\<lambda>ext m. m(ext \<mapsto> (main_category, subcategory))) extensions)
                  subcategories)
          file_categories Map.empty"

text \<open>The folder of one path: lines 167 to 181 of the loop body.\<close>

definition folder_name_of :: "string \<Rightarrow> string" where
  "folder_name_of file_path =
     (let ext = lower (snd (splitext file_path))
      in case extension_to_category ext of
           Some (main_category, subcategory) \<Rightarrow>
             if main_category \<in> set single_subcategory_mains then main_category
             else join main_category subcategory
         | None \<Rightarrow> ''others'')"

text \<open>
  \<^verbatim>\<open>process_files_by_type(file_paths, output_path, ...)\<close>; the unread parameters
  \<^verbatim>\<open>dry_run\<close>, \<^verbatim>\<open>silent\<close> and \<^verbatim>\<open>log_file\<close> are left out. A path whose basename
  starts with a dot is skipped by \<^verbatim>\<open>continue\<close>.
\<close>

fun by_type_loop :: "string \<Rightarrow> string list \<Rightarrow> operation list \<Rightarrow> operation list" where
  "by_type_loop output_path [] operations = operations"
| "by_type_loop output_path (file_path # rest) operations =
     (if startswith (basename file_path) CHR ''.''
      then by_type_loop output_path rest operations
      else
        (let folder_name = folder_name_of file_path;
             dir_path = join output_path folder_name;
             new_file_name = basename file_path;
             new_file_path = join dir_path new_file_name;
             operation = \<lparr>source = file_path, destination = new_file_path,
                          link_type = ''hardlink''\<rparr>
         in by_type_loop output_path rest (operations @ [operation])))"

definition process_files_by_type :: "string list \<Rightarrow> string \<Rightarrow> operation list" where
  "process_files_by_type file_paths output_path = by_type_loop output_path file_paths []"

section \<open>Planning from metadata\<close>

text \<open>
  \<^verbatim>\<open>f"{counter}"\<close> for a counter that starts at 1 and only grows: the decimal digits
  of a natural number, most significant first.
\<close>

definition digit_char :: "nat \<Rightarrow> char" where
  "digit_char d = char_of (48 + d)"

fun str_nat :: "nat \<Rightarrow> string" where
  "str_nat n = (if n < 10 then [digit_char n] else str_nat (n div 10) @ [digit_char (n mod 10)])"

declare str_nat.simps [simp del]

text \<open>One entry of \<^verbatim>\<open>data_list\<close>: a dictionary with the keys the loop reads.\<close>

record metadata =
  file_path :: string
  foldername :: string
  filename :: string

text \<open>
  The name tried at a given counter value,
  \<^verbatim>\<open>f"{data['filename']}_{counter}" + os.path.splitext(file_path)[1]\<close>, joined to the
  directory.
\<close>

definition suffixed_name :: "string \<Rightarrow> string \<Rightarrow> nat \<Rightarrow> string" where
  "suffixed_name stem ext counter = stem @ ''_'' @ str_nat counter @ ext"

text \<open>
  The \<^verbatim>\<open>while new_file_path in renamed_files\<close> loop. Its state is the counter and the
  pair of \<^verbatim>\<open>new_file_name\<close> and \<^verbatim>\<open>new_file_path\<close> (here \<open>cur_name\<close> and \<open>cur_path\<close>). \<^verbatim>\<open>renamed_files\<close> is a Python
  set, hence finite, which is why the loop ends.
\<close>

function handle_duplicates ::
  "string \<Rightarrow> string \<Rightarrow> string \<Rightarrow> string fset \<Rightarrow> nat \<Rightarrow> string \<times> string \<Rightarrow> string \<times> string" where
  "handle_duplicates dir_path stem ext renamed_files counter (cur_name, cur_path) =
     (if cur_path |\<in>| renamed_files
      then handle_duplicates dir_path stem ext renamed_files (counter + 1)
             (suffixed_name stem ext counter, join dir_path (suffixed_name stem ext counter))
      else (cur_name, cur_path))"
  by pat_completeness auto

text \<open>Termination: the names tried are pairwise distinct, and only finitely many of
  them are in the set.\<close>

lemma digit_char_inj: "a < 10 \<Longrightarrow> b < 10 \<Longrightarrow> digit_char a = digit_char b \<Longrightarrow> a = b"
  unfolding digit_char_def
  by (simp add: char_of_eq_iff take_bit_nat_eq_self)

lemma str_nat_small: "n < 10 \<Longrightarrow> str_nat n = [digit_char n]"
  by (subst str_nat.simps) simp

lemma str_nat_big: "\<not> n < 10 \<Longrightarrow> str_nat n = str_nat (n div 10) @ [digit_char (n mod 10)]"
  by (subst str_nat.simps) simp

lemma str_nat_nonempty: "str_nat n \<noteq> []"
  by (cases "n < 10") (simp_all add: str_nat_small str_nat_big)

lemma str_nat_inj: "str_nat a = str_nat b \<Longrightarrow> a = b"
proof (induction a arbitrary: b rule: str_nat.induct)
  case (1 n)
  show ?case
  proof (cases "n < 10")
    case True
    have b: "b < 10"
    proof (rule ccontr)
      assume "\<not> b < 10"
      with True "1.prems" show False
        by (simp add: str_nat_small str_nat_big str_nat_nonempty str_nat_nonempty[THEN not_sym])
    qed
    with True "1.prems" show ?thesis
      by (auto simp: str_nat_small dest: digit_char_inj)
  next
    case False
    have b: "\<not> b < 10"
    proof
      assume "b < 10"
      with False "1.prems" show False
        by (simp add: str_nat_small str_nat_big str_nat_nonempty str_nat_nonempty[THEN not_sym])
    qed
    from False b "1.prems" have "str_nat (n div 10) = str_nat (b div 10)"
      and d: "digit_char (n mod 10) = digit_char (b mod 10)"
      by (simp_all add: str_nat_big)
    with "1.IH"[OF False] have "n div 10 = b div 10" by blast
    moreover from d have "n mod 10 = b mod 10"
      by (rule digit_char_inj[rotated 2]) simp_all
    ultimately show ?thesis
      by (metis div_mult_mod_eq)
  qed
qed

lemma startswith_suffixed:
  "startswith (suffixed_name stem ext k) CHR ''/'' = startswith stem CHR ''/''"
  by (cases stem) (simp_all add: suffixed_name_def startswith_def)

lemma suffixed_name_inj: "suffixed_name stem ext a = suffixed_name stem ext b \<Longrightarrow> a = b"
  by (auto simp: suffixed_name_def dest: str_nat_inj)

lemma join_suffixed_inj:
  assumes "join d (suffixed_name stem ext a) = join d (suffixed_name stem ext b)"
  shows "a = b"
proof -
  have "suffixed_name stem ext a = suffixed_name stem ext b"
    using assms unfolding join_def startswith_suffixed
    by (simp split: if_splits)
  then show ?thesis by (rule suffixed_name_inj)
qed

lemma finite_taken: "finite {k. join d (suffixed_name stem ext k) |\<in>| R}"
proof -
  have "inj (\<lambda>k. join d (suffixed_name stem ext k))"
    by (rule injI) (rule join_suffixed_inj)
  then have "finite ((\<lambda>k. join d (suffixed_name stem ext k)) -` fset R)"
    by (intro finite_vimageI) simp_all
  then show ?thesis by (simp add: vimage_def)
qed

termination handle_duplicates
proof (relation "measure (\<lambda>(d, stem, ext, R, counter, (n, p)).
          card {k. counter \<le> k \<and> join d (suffixed_name stem ext k) |\<in>| R}
          + (if p |\<in>| R then 1 else 0))", goal_cases)
  case 1
  show ?case by simp
next
  case (2 d stem ext R counter n p)
  let ?A = "\<lambda>c. {k. c \<le> k \<and> join d (suffixed_name stem ext k) |\<in>| R}"
  have fin: "finite (?A counter)"
    by (rule finite_subset[OF _ finite_taken[of d stem ext R]]) auto
  show ?case
  proof (cases "join d (suffixed_name stem ext counter) |\<in>| R")
    case True
    have "?A counter = insert counter (?A (counter + 1))"
      using True by (auto simp: le_Suc_eq)
    moreover have "counter \<notin> ?A (counter + 1)" by simp
    moreover have "finite (?A (counter + 1))"
      by (rule finite_subset[OF _ fin]) auto
    ultimately have "card (?A counter) = Suc (card (?A (counter + 1)))"
      by (simp del: Suc_eq_plus1 add_Suc_right)
    with 2 True show ?thesis by simp
  next
    case False
    have "?A counter = ?A (counter + 1)"
      using False by (auto simp: Suc_le_eq order_le_less)
    with 2 False show ?thesis by simp
  qed
qed

declare handle_duplicates.simps [simp del]

text \<open>
  \<^verbatim>\<open>compute_operations(data_list, new_path, renamed_files, processed_files)\<close>. The two
  sets are the caller's and are mutated in place; the model returns them after the
  operations.
\<close>

fun compute_loop ::
  "string \<Rightarrow> metadata list \<Rightarrow> meta_operation list \<Rightarrow> string fset \<Rightarrow> string fset \<Rightarrow>
   meta_operation list \<times> string fset \<times> string fset" where
  "compute_loop new_path [] operations renamed_files processed_files =
     (operations, renamed_files, processed_files)"
| "compute_loop new_path (data # rest) operations renamed_files processed_files =
     (if file_path data |\<in>| processed_files
      then compute_loop new_path rest operations renamed_files processed_files
      else
        (let ext = snd (splitext (file_path data));
             dir_path = join new_path (foldername data);
             found = handle_duplicates dir_path (filename data) ext renamed_files 1
                       (filename data @ ext, join dir_path (filename data @ ext));
             operation = \<lparr>source = file_path data, destination = snd found,
                          link_type = ''hardlink'', folder_name = foldername data,
                          new_file_name = fst found\<rparr>
         in compute_loop new_path rest (operations @ [operation])
              (finsert (snd found) renamed_files)
              (finsert (file_path data) processed_files)))"

definition compute_operations ::
  "metadata list \<Rightarrow> string \<Rightarrow> string fset \<Rightarrow> string fset \<Rightarrow>
   meta_operation list \<times> string fset \<times> string fset" where
  "compute_operations data_list new_path renamed_files processed_files =
     compute_loop new_path data_list [] renamed_files processed_files"

section \<open>Executing operations\<close>

text \<open>
  The executor acts on the world through five calls: \<^verbatim>\<open>os.makedirs(p, exist_ok=True)\<close>,
  \<^verbatim>\<open>os.link\<close>, \<^verbatim>\<open>os.symlink\<close>, the appending of one line to the log file
  (\<^verbatim>\<open>open(log_file, 'a')\<close> and \<^verbatim>\<open>write\<close>) and \<^verbatim>\<open>print\<close>. What they do is left
  open: each is a parameter that takes the state of the file system and gives the
  exception it raised, if any, and (all but \<^verbatim>\<open>print\<close>, which writes to the standard
  output and not to the file system) the next state. A theorem about the executor
  therefore holds for every file system and every standard output.
\<close>

record 'fs os_calls =
  os_makedirs :: "string \<Rightarrow> 'fs \<Rightarrow> 'fs \<times> exn option"
  os_link :: "string \<Rightarrow> string \<Rightarrow> 'fs \<Rightarrow> 'fs \<times> exn option"
  os_symlink :: "string \<Rightarrow> string \<Rightarrow> 'fs \<Rightarrow> 'fs \<times> exn option"
  append_line :: "string \<Rightarrow> string \<Rightarrow> 'fs \<Rightarrow> 'fs \<times> exn option"
  print_line :: "string \<Rightarrow> 'fs \<Rightarrow> exn option"

text \<open>What the call did, in order: the calls above, each with the exception it raised
  if it raised one, and \<^verbatim>\<open>progress.advance\<close>.\<close>

datatype effect =
    Makedirs string "exn option"
  | Link string string "exn option"
  | Symlink string string "exn option"
  | Advance
  | Append string string "exn option"
  | Print string "exn option"

record 'fs world =
  fs :: 'fs
  trace :: "effect list"

definition emit :: "effect \<Rightarrow> 'fs \<Rightarrow> 'fs world \<Rightarrow> 'fs world" where
  "emit e fs' w = \<lparr>fs = fs', trace = trace w @ [e]\<rparr>"

fun str_exn :: "exn \<Rightarrow> string" where
  "str_exn (OSError s) = s"

text \<open>The three messages of lines 262, 272 and 274.\<close>

definition dry_run_message :: "string \<Rightarrow> string \<Rightarrow> string \<Rightarrow> string" where
  "dry_run_message lt src dst =
     ''Dry run: would create '' @ lt @ '' from '' @ [CHR 0x27] @ src @ [CHR 0x27] @ '' to ''
       @ [CHR 0x27] @ dst @ [CHR 0x27]"

definition created_message :: "string \<Rightarrow> string \<Rightarrow> string \<Rightarrow> string" where
  "created_message lt src dst =
     ''Created '' @ lt @ '' from '' @ [CHR 0x27] @ src @ [CHR 0x27] @ '' to ''
       @ [CHR 0x27] @ dst @ [CHR 0x27]"

definition error_message :: "string \<Rightarrow> string \<Rightarrow> string \<Rightarrow> exn \<Rightarrow> string" where
  "error_message lt src dst e =
     ''Error creating '' @ lt @ '' from '' @ [CHR 0x27] @ src @ [CHR 0x27] @ '' to ''
       @ [CHR 0x27] @ dst @ [CHR 0x27] @ '': '' @ str_exn e"

text \<open>
  Lines 261 to 274: the message of one operation. \<^verbatim>\<open>os.makedirs\<close> stands before the
  \<^verbatim>\<open>try\<close>, so its exception leaves the loop (\<open>Inl\<close>); the exception of the link call
  is caught and becomes the message.
\<close>

definition perform ::
  "'fs os_calls \<Rightarrow> bool \<Rightarrow> 'a operation_scheme \<Rightarrow> 'fs world \<Rightarrow> (exn + string) \<times> 'fs world" where
  "perform os dry_run operation w =
     (let src = source operation;
          dst = destination operation;
          lt = link_type operation;
          dir_path = dirname dst
      in if dry_run then (Inr (dry_run_message lt src dst), w)
         else
           (case os_makedirs os dir_path (fs w) of
              (fs1, Some e) \<Rightarrow> (Inl e, emit (Makedirs dir_path (Some e)) fs1 w)
            | (fs1, None) \<Rightarrow>
                (let w1 = emit (Makedirs dir_path None) fs1 w
                 in if lt = ''hardlink''
                    then (case os_link os src dst fs1 of
                            (fs2, None) \<Rightarrow>
                              (Inr (created_message lt src dst), emit (Link src dst None) fs2 w1)
                          | (fs2, Some e) \<Rightarrow>
                              (Inr (error_message lt src dst e),
                               emit (Link src dst (Some e)) fs2 w1))
                    else (case os_symlink os src dst fs1 of
                            (fs2, None) \<Rightarrow>
                              (Inr (created_message lt src dst), emit (Symlink src dst None) fs2 w1)
                          | (fs2, Some e) \<Rightarrow>
                              (Inr (error_message lt src dst e),
                               emit (Symlink src dst (Some e)) fs2 w1)))))"

text \<open>
  Lines 278 to 284: where the message goes. \<^verbatim>\<open>if log_file\<close> is false for \<^verbatim>\<open>None\<close> and
  for the empty string. Opening or writing the log file may raise, and so may
  \<^verbatim>\<open>print\<close> (a file name that the standard output cannot encode, a closed or broken
  standard output); nothing catches either.
\<close>

definition report ::
  "'fs os_calls \<Rightarrow> bool \<Rightarrow> string option \<Rightarrow> string \<Rightarrow> 'fs world \<Rightarrow> exn option \<times> 'fs world" where
  "report os silent log_file message w =
     (if silent then
        (case log_file of
           None \<Rightarrow> (None, w)
         | Some f \<Rightarrow>
             if f = [] then (None, w)
             else (case append_line os f (message @ [CHR 0x0A]) (fs w) of
                     (fs1, r) \<Rightarrow> (r, emit (Append f (message @ [CHR 0x0A]) r) fs1 w)))
      else (case print_line os message (fs w) of
              r \<Rightarrow> (r, emit (Print message r) (fs w) w)))"

text \<open>One turn of the loop: the message or the exception that ends the call.\<close>

definition execute_one ::
  "'fs os_calls \<Rightarrow> bool \<Rightarrow> bool \<Rightarrow> string option \<Rightarrow> 'a operation_scheme \<Rightarrow> 'fs world \<Rightarrow>
   (exn + string) \<times> 'fs world" where
  "execute_one os dry_run silent log_file operation w =
     (case perform os dry_run operation w of
        (Inl e, w1) \<Rightarrow> (Inl e, w1)
      | (Inr message, w1) \<Rightarrow>
          (case report os silent log_file message (emit Advance (fs w1) w1) of
             (Some e, w2) \<Rightarrow> (Inl e, w2)
           | (None, w2) \<Rightarrow> (Inr message, w2)))"

text \<open>
  \<^verbatim>\<open>execute_operations(operations, dry_run, silent, log_file)\<close>. Python returns
  \<^verbatim>\<open>None\<close>; the model returns the world after the call and the exception that left
  the call, if one did. Its first component is not a value of the program: it lists
  the value that the local variable \<^verbatim>\<open>message\<close> had in each turn that completed, and
  serves to state what the turns computed.
\<close>

fun execute_operations ::
  "'fs os_calls \<Rightarrow> 'a operation_scheme list \<Rightarrow> bool \<Rightarrow> bool \<Rightarrow> string option \<Rightarrow> 'fs world \<Rightarrow>
   string list \<times> 'fs world \<times> exn option" where
  "execute_operations os [] dry_run silent log_file w = ([], w, None)"
| "execute_operations os (operation # rest) dry_run silent log_file w =
     (case execute_one os dry_run silent log_file operation w of
        (Inl e, w1) \<Rightarrow> ([], w1, Some e)
      | (Inr message, w1) \<Rightarrow>
          (case execute_operations os rest dry_run silent log_file w1 of
             (messages, w2, r) \<Rightarrow> (message # messages, w2, r)))"

section \<open>Planning by date: a missing source ends the call\<close>

lemma by_date_loop_raises:
  "fp \<in> set file_paths \<Longrightarrow> getmtime fp = Inl e \<Longrightarrow>
   \<exists>e'. by_date_loop getmtime fromtimestamp year month output_path file_paths operations = Inl e'"
proof (induction file_paths arbitrary: operations)
  case Nil
  then show ?case by simp
next
  case (Cons a rest)
  show ?case
  proof (cases "getmtime a")
    case (Inl e0)
    then show ?thesis by simp
  next
    case (Inr t)
    note t = this
    show ?thesis
    proof (cases "fromtimestamp t")
      case (Inl e1)
      with t show ?thesis by simp
    next
      case (Inr d)
      from t Cons.prems have "fp \<in> set rest" by auto
      from Cons.IH[OF this Cons.prems(2)] t Inr show ?thesis
        by (simp add: Let_def)
    qed
  qed
qed

text \<open>The exception is that of the first path that cannot be read, when the paths
  before it can be read and dated.\<close>

lemma by_date_loop_first_failure:
  "\<forall>p \<in> set pre. \<exists>t d. getmtime p = Inr t \<and> fromtimestamp t = Inr d \<Longrightarrow> getmtime fp = Inl e \<Longrightarrow>
   by_date_loop getmtime fromtimestamp year month output_path (pre @ fp # post) operations = Inl e"
proof (induction pre arbitrary: operations)
  case Nil
  then show ?case by simp
next
  case (Cons a pre)
  then obtain t d where "getmtime a = Inr t" "fromtimestamp t = Inr d" by auto
  with Cons show ?case by (simp add: Let_def)
qed

text \<open>When every path can be read and dated the call returns one operation per path,
  in order.\<close>

lemma by_date_loop_all_present:
  "\<forall>p \<in> set file_paths. \<exists>t d. getmtime p = Inr t \<and> fromtimestamp t = Inr d \<Longrightarrow>
   \<exists>new. by_date_loop getmtime fromtimestamp year month output_path file_paths operations =
            Inr (operations @ new)
      \<and> map source new = file_paths"
proof (induction file_paths arbitrary: operations)
  case Nil
  then show ?case by simp
next
  case (Cons a rest)
  then obtain t d where t: "getmtime a = Inr t" "fromtimestamp t = Inr d" by auto
  let ?op = "\<lparr>source = a, destination = join (join3 output_path (year d) (month d)) (basename a),
               link_type = ''hardlink''\<rparr>"
  from Cons.prems have "\<forall>p \<in> set rest. \<exists>t d. getmtime p = Inr t \<and> fromtimestamp t = Inr d"
    by simp
  from Cons.IH[OF this, of "operations @ [?op]"] obtain new where
    "by_date_loop getmtime fromtimestamp year month output_path rest (operations @ [?op]) =
       Inr ((operations @ [?op]) @ new)"
    "map source new = rest" by blast
  with t show ?case
    by (intro exI[of _ "?op # new"]) (simp add: Let_def)
qed

text \<open>
  C9. If the modification time of some path of the input list cannot be read,
  \<open>process_files_by_date\<close> ends with an exception: its result is no list of
  operations at all, not even for the paths before the unreadable one.
\<close>

theorem by_date_missing_source_raises:
  assumes "fp \<in> set file_paths" and "getmtime fp = Inl e"
  shows "\<exists>e'. process_files_by_date getmtime fromtimestamp year month file_paths output_path = Inl e'"
  unfolding process_files_by_date_def using assms by (rule by_date_loop_raises)

theorem by_date_missing_source_raises_witness:
  "''/in/b'' \<in> set [''/in/a'', ''/in/b'', ''/in/c''] \<and>
   (\<exists>e'. process_files_by_date
      (\<lambda>p. if p = ''/in/b'' then Inl (OSError ''No such file or directory'') else Inr (0::nat))
      (\<lambda>t. Inr t) (\<lambda>t. ''2024'') (\<lambda>t. ''January'') [''/in/a'', ''/in/b'', ''/in/c''] ''/out''
        = Inl e')"
  using by_date_missing_source_raises[where fp = "''/in/b''"
      and file_paths = "[''/in/a'', ''/in/b'', ''/in/c'']"
      and getmtime = "\<lambda>p. if p = ''/in/b'' then Inl (OSError ''No such file or directory'')
                          else Inr (0::nat)"
      and e = "OSError ''No such file or directory''" and fromtimestamp = "\<lambda>t. Inr t"
      and year = "\<lambda>t. ''2024''" and month = "\<lambda>t. ''January''" and output_path = "''/out''"]
  by simp

section \<open>Planning by type: hidden files\<close>

lemma by_type_loop_sources:
  "map source (by_type_loop output_path file_paths operations) =
   map source operations @ filter (\<lambda>p. \<not> startswith (basename p) CHR ''.'') file_paths"
  by (induction file_paths arbitrary: operations) (simp_all add: Let_def)

text \<open>
  C7. A path whose basename begins with a dot is the source of no operation that
  \<open>process_files_by_type\<close> returns, whatever its extension.
\<close>

theorem hidden_files_absent:
  assumes "startswith (basename fp) CHR ''.''"
  shows "fp \<notin> source ` set (process_files_by_type file_paths output_path)"
proof -
  have "source ` set (process_files_by_type file_paths output_path) =
        set (map source (process_files_by_type file_paths output_path))" by simp
  also have "\<dots> = {p \<in> set file_paths. \<not> startswith (basename p) CHR ''.''}"
    unfolding process_files_by_type_def by_type_loop_sources by simp
  finally show ?thesis using assms by simp
qed

theorem hidden_files_absent_witness:
  "startswith (basename ''/in/.notes.txt'') CHR ''.'' \<and>
   ''/in/.notes.txt'' \<notin> source ` set (process_files_by_type [''/in/a.txt'', ''/in/.notes.txt''] ''/out'')"
proof -
  have h: "startswith (basename ''/in/.notes.txt'') CHR ''.''"
    by (simp add: basename_def rfind_def startswith_def)
  from h hidden_files_absent[OF h, of "[''/in/a.txt'', ''/in/.notes.txt'']" "''/out''"]
  show ?thesis by (rule conjI)
qed

section \<open>Facts about the path functions\<close>

lemma rfind_absent: "c \<notin> set p \<Longrightarrow> rfind c p = - 1"
  by (simp add: rfind_def)

lemma rfind_last: "c \<notin> set zs \<Longrightarrow> rfind c (ys @ c # zs) = int (length ys)"
proof -
  assume a: "c \<notin> set zs"
  have "takeWhile (\<lambda>x. x \<noteq> c) (rev zs @ c # rev ys) = rev zs"
    using a by (subst takeWhile_append2) auto
  then show ?thesis by (simp add: rfind_def)
qed

lemma rfind_ge: "- 1 \<le> rfind c p"
  by (simp add: rfind_def) (metis length_rev length_takeWhile_le less_le_not_le linorder_not_le nat_less_le set_rev takeWhile_eq_all_conv)

lemma splitext_ext: "snd (splitext p) = [] \<or> (\<exists>zs. snd (splitext p) = CHR ''.'' # zs)"
proof (cases "CHR ''.'' \<in> set p")
  case False
  then show ?thesis
    using rfind_ge[of "CHR ''/''" p] by (simp add: splitext_def rfind_absent Let_def)
next
  case True
  then obtain ys zs where p: "p = ys @ CHR ''.'' # zs" "CHR ''.'' \<notin> set zs"
    by (meson split_list_last)
  then show ?thesis
    by (simp add: splitext_def rfind_last Let_def)
qed

lemma startswith_append_ext:
  "startswith (stem @ snd (splitext p)) CHR ''/'' = startswith stem CHR ''/''"
  using splitext_ext[of p] by (cases stem) (auto simp: startswith_def)

lemma join_inj:
  "startswith a CHR ''/'' = startswith b CHR ''/'' \<Longrightarrow> join d a = join d b \<Longrightarrow> a = b"
  by (auto simp: join_def split: if_splits)

section \<open>Planning from metadata: the suffix loop\<close>


lemma handle_duplicates_unused:
  "p |\<notin>| R \<Longrightarrow> handle_duplicates d stem ext R c (n, p) = (n, p)"
  by (subst handle_duplicates.simps) simp

lemma handle_duplicates_step:
  "p |\<in>| R \<Longrightarrow> handle_duplicates d stem ext R c (n, p) =
     handle_duplicates d stem ext R (c + 1) (suffixed_name stem ext c, join d (suffixed_name stem ext c))"
  by (subst handle_duplicates.simps) simp

lemma handle_duplicates_least:
  assumes "p |\<in>| R" and "c \<le> k"
    and "\<forall>j. c \<le> j \<and> j < k \<longrightarrow> join d (suffixed_name stem ext j) |\<in>| R"
    and "join d (suffixed_name stem ext k) |\<notin>| R"
  shows "handle_duplicates d stem ext R c (n, p) =
         (suffixed_name stem ext k, join d (suffixed_name stem ext k))"
  using assms
proof (induction "k - c" arbitrary: c n p)
  case 0
  then have "c = k" by simp
  with 0 show ?case by (simp add: handle_duplicates_step handle_duplicates_unused)
next
  case (Suc m)
  then have lt: "c < k" by simp
  with Suc.prems have in_R: "join d (suffixed_name stem ext c) |\<in>| R" by simp
  have "handle_duplicates d stem ext R (c + 1)
          (suffixed_name stem ext c, join d (suffixed_name stem ext c)) =
        (suffixed_name stem ext k, join d (suffixed_name stem ext k))"
    using Suc.hyps(2) lt Suc.prems(3,4) by (intro Suc.hyps(1) in_R) auto
  with Suc.prems(1) show ?case by (simp add: handle_duplicates_step)
qed


lemma str_nat_1: "str_nat 1 = ''1''"
  by code_simp

lemma suffixed_name_1: "suffixed_name stem ext 1 = stem @ ''_1'' @ ext"
  unfolding suffixed_name_def str_nat_1 by simp

lemma second_candidate:
  assumes sw1: "startswith (stem @ e1) CHR ''/'' = startswith stem CHR ''/''"
    and sw2: "startswith (stem @ e2) CHR ''/'' = startswith stem CHR ''/''"
  shows "handle_duplicates d stem e2 {|join d (stem @ e1)|} 1 (stem @ e2, join d (stem @ e2)) =
     (if e2 = e1 then (stem @ ''_1'' @ e2, join d (stem @ ''_1'' @ e2))
      else (stem @ e2, join d (stem @ e2)))"
    and "join d (if e2 = e1 then stem @ ''_1'' @ e2 else stem @ e2) \<noteq> join d (stem @ e1)"
proof -
  have sw3: "startswith (stem @ ''_1'' @ e2) CHR ''/'' = startswith stem CHR ''/''"
    by (cases stem) (simp_all add: startswith_def)
  have ne_suff: "join d (stem @ ''_1'' @ e2) \<noteq> join d (stem @ e1)" if "e2 = e1"
  proof
    assume eq: "join d (stem @ ''_1'' @ e2) = join d (stem @ e1)"
    have "stem @ ''_1'' @ e2 = stem @ e1"
      by (rule join_inj[OF _ eq]) (simp only: sw1 sw3)
    with that show False by simp
  qed
  have ne_plain: "join d (stem @ e2) \<noteq> join d (stem @ e1)" if "e2 \<noteq> e1"
  proof
    assume eq: "join d (stem @ e2) = join d (stem @ e1)"
    have "stem @ e2 = stem @ e1"
      by (rule join_inj[OF _ eq]) (simp only: sw1 sw2)
    with that show False by simp
  qed
  show "handle_duplicates d stem e2 {|join d (stem @ e1)|} 1 (stem @ e2, join d (stem @ e2)) =
     (if e2 = e1 then (stem @ ''_1'' @ e2, join d (stem @ ''_1'' @ e2))
      else (stem @ e2, join d (stem @ e2)))"
  proof (cases "e2 = e1")
    case True
    then have "join d (stem @ e2) |\<in>| {|join d (stem @ e1)|}" by simp
    then have "handle_duplicates d stem e2 {|join d (stem @ e1)|} 1 (stem @ e2, join d (stem @ e2)) =
       handle_duplicates d stem e2 {|join d (stem @ e1)|} (1 + 1)
         (suffixed_name stem e2 1, join d (suffixed_name stem e2 1))"
      by (rule handle_duplicates_step)
    also have "\<dots> = (suffixed_name stem e2 1, join d (suffixed_name stem e2 1))"
    proof (rule handle_duplicates_unused)
      show "join d (suffixed_name stem e2 1) |\<notin>| {|join d (stem @ e1)|}"
        unfolding suffixed_name_1 using ne_suff[OF True] by simp
    qed
    finally show ?thesis unfolding suffixed_name_1 using True by simp
  next
    case False
    have "handle_duplicates d stem e2 {|join d (stem @ e1)|} 1 (stem @ e2, join d (stem @ e2)) =
       (stem @ e2, join d (stem @ e2))"
    proof (rule handle_duplicates_unused)
      show "join d (stem @ e2) |\<notin>| {|join d (stem @ e1)|}"
        using ne_plain[OF False] by simp
    qed
    with False show ?thesis by simp
  qed
  show "join d (if e2 = e1 then stem @ ''_1'' @ e2 else stem @ e2) \<noteq> join d (stem @ e1)"
    using ne_suff ne_plain by (cases "e2 = e1") simp_all
qed

section \<open>Distinct destinations\<close>



section \<open>Two records with one stem\<close>

text \<open>
  C2, as stated, fails when the two sources have different extensions: the candidate
  of the second record, \<^verbatim>\<open>report.pdf\<close>, is not allocated, so it is emitted without
  a suffix.
\<close>

theorem second_suffix_counterexample:
  "map destination (fst (compute_operations
            [\<lparr>file_path = ''/in/a.txt'', foldername = ''docs'', filename = ''report''\<rparr>,
             \<lparr>file_path = ''/in/b.pdf'', foldername = ''docs'', filename = ''report''\<rparr>]
            ''/out'' {||} {||})) =
   [''/out/docs/report.txt'', ''/out/docs/report.pdf'']"
  by code_simp

text \<open>
  C2, amended. For two records with the same folder and stem and distinct source
  paths, starting from empty sets, the first destination is the folder joined with
  the stem plus the first source's extension; the second is the stem plus the second
  source's extension, with \<open>_1\<close> before the extension exactly when the two
  extensions are equal. In both cases the second destination differs from the first.
\<close>

theorem two_records_same_stem:
  assumes "f1 \<noteq> f2"
  shows "map destination (fst (compute_operations
            [\<lparr>file_path = f1, foldername = folder, filename = stem\<rparr>,
             \<lparr>file_path = f2, foldername = folder, filename = stem\<rparr>] new_path {||} {||})) =
         [join (join new_path folder) (stem @ snd (splitext f1)),
          join (join new_path folder)
            (if snd (splitext f2) = snd (splitext f1)
             then stem @ ''_1'' @ snd (splitext f2) else stem @ snd (splitext f2))]
       \<and> join (join new_path folder)
            (if snd (splitext f2) = snd (splitext f1)
             then stem @ ''_1'' @ snd (splitext f2) else stem @ snd (splitext f2))
          \<noteq> join (join new_path folder) (stem @ snd (splitext f1))"
proof (rule conjI)
  let ?d = "join new_path folder"
  let ?e1 = "snd (splitext f1)"
  let ?e2 = "snd (splitext f2)"
  have first: "handle_duplicates ?d stem ?e1 {||} 1 (stem @ ?e1, join ?d (stem @ ?e1)) =
      (stem @ ?e1, join ?d (stem @ ?e1))"
    by (rule handle_duplicates_unused) simp
  note second = second_candidate[where stem = stem and ?e1.0 = ?e1 and ?e2.0 = ?e2 and d = ?d,
      OF startswith_append_ext startswith_append_ext]
  have "compute_loop new_path
            [\<lparr>file_path = f1, foldername = folder, filename = stem\<rparr>,
             \<lparr>file_path = f2, foldername = folder, filename = stem\<rparr>] [] {||} {||} =
        compute_loop new_path [\<lparr>file_path = f2, foldername = folder, filename = stem\<rparr>]
          [\<lparr>source = f1, destination = join ?d (stem @ ?e1), link_type = ''hardlink'',
             folder_name = folder, new_file_name = stem @ ?e1\<rparr>]
          {|join ?d (stem @ ?e1)|} {|f1|}"
    by (simp add: Let_def first del: One_nat_def)
  also have "\<dots> =
     ([\<lparr>source = f1, destination = join ?d (stem @ ?e1), link_type = ''hardlink'',
             folder_name = folder, new_file_name = stem @ ?e1\<rparr>,
       \<lparr>source = f2,
          destination = join ?d (if ?e2 = ?e1 then stem @ ''_1'' @ ?e2 else stem @ ?e2),
          link_type = ''hardlink'', folder_name = folder,
          new_file_name = (if ?e2 = ?e1 then stem @ ''_1'' @ ?e2 else stem @ ?e2)\<rparr>],
      {|join ?d (if ?e2 = ?e1 then stem @ ''_1'' @ ?e2 else stem @ ?e2), join ?d (stem @ ?e1)|},
      {|f2, f1|})"
    using assms
    by (simp add: Let_def second(1) del: One_nat_def split del: if_split) simp
  finally show "map destination (fst (compute_operations
            [\<lparr>file_path = f1, foldername = folder, filename = stem\<rparr>,
             \<lparr>file_path = f2, foldername = folder, filename = stem\<rparr>] new_path {||} {||})) =
         [join ?d (stem @ ?e1), join ?d (if ?e2 = ?e1 then stem @ ''_1'' @ ?e2 else stem @ ?e2)]"
    by (simp add: compute_operations_def)
  show "join ?d (if ?e2 = ?e1 then stem @ ''_1'' @ ?e2 else stem @ ?e2) \<noteq> join ?d (stem @ ?e1)"
    by (rule second(2))
qed

theorem two_records_same_stem_witness:
  "''/in/a.txt'' \<noteq> ''/in/b.txt'' \<and>
   map destination (fst (compute_operations
            [\<lparr>file_path = ''/in/a.txt'', foldername = ''docs'', filename = ''report''\<rparr>,
             \<lparr>file_path = ''/in/b.txt'', foldername = ''docs'', filename = ''report''\<rparr>]
            ''/out'' {||} {||})) =
   [''/out/docs/report.txt'', ''/out/docs/report_1.txt'']"
proof -
  have h: "''/in/a.txt'' \<noteq> ''/in/b.txt''" by simp
  have r: "[join (join ''/out'' ''docs'') (''report'' @ snd (splitext ''/in/a.txt'')),
          join (join ''/out'' ''docs'')
            (if snd (splitext ''/in/b.txt'') = snd (splitext ''/in/a.txt'')
             then ''report'' @ ''_1'' @ snd (splitext ''/in/b.txt'')
             else ''report'' @ snd (splitext ''/in/b.txt''))] =
     [''/out/docs/report.txt'', ''/out/docs/report_1.txt'']"
    by code_simp
  from two_records_same_stem[OF h, where new_path = "''/out''" and folder = "''docs''"
      and stem = "''report''"]
  have "map destination (fst (compute_operations
            [\<lparr>file_path = ''/in/a.txt'', foldername = ''docs'', filename = ''report''\<rparr>,
             \<lparr>file_path = ''/in/b.txt'', foldername = ''docs'', filename = ''report''\<rparr>]
            ''/out'' {||} {||})) =
         [join (join ''/out'' ''docs'') (''report'' @ snd (splitext ''/in/a.txt'')),
          join (join ''/out'' ''docs'')
            (if snd (splitext ''/in/b.txt'') = snd (splitext ''/in/a.txt'')
             then ''report'' @ ''_1'' @ snd (splitext ''/in/b.txt'')
             else ''report'' @ snd (splitext ''/in/b.txt''))]"
    by (rule conjunct1)
  then have "map destination (fst (compute_operations
            [\<lparr>file_path = ''/in/a.txt'', foldername = ''docs'', filename = ''report''\<rparr>,
             \<lparr>file_path = ''/in/b.txt'', foldername = ''docs'', filename = ''report''\<rparr>]
            ''/out'' {||} {||})) = [''/out/docs/report.txt'', ''/out/docs/report_1.txt'']"
    by (simp only: r)
  with h show ?thesis by (rule conjI)
qed

section \<open>The counter continues over calls\<close>

text \<open>
  C5. Let the set of allocated destinations hold the unsuffixed destination of a
  record and its destinations with the suffixes \<open>_1\<close> to \<open>_(n-1)\<close>, and not the one
  with \<open>_n\<close>. Then a call of \<open>compute_operations\<close> with that set gives the record
  the suffix \<open>_n\<close> (so \<open>_2\<close> after \<open>_1\<close>, \<open>_3\<close> after \<open>_2\<close>), and adds that
  destination to the set.
\<close>

theorem suffix_continues:
  assumes "file_path data |\<notin>| processed_files"
    and "1 \<le> n"
    and "join (join new_path (foldername data)) (filename data @ snd (splitext (file_path data)))
           |\<in>| renamed_files"
    and "\<forall>k. 1 \<le> k \<and> k < n \<longrightarrow>
           join (join new_path (foldername data))
             (suffixed_name (filename data) (snd (splitext (file_path data))) k) |\<in>| renamed_files"
    and "join (join new_path (foldername data))
           (suffixed_name (filename data) (snd (splitext (file_path data))) n) |\<notin>| renamed_files"
  shows "map destination (fst (compute_operations [data] new_path renamed_files processed_files)) =
         [join (join new_path (foldername data))
            (filename data @ ''_'' @ str_nat n @ snd (splitext (file_path data)))]
       \<and> fst (snd (compute_operations [data] new_path renamed_files processed_files)) =
         finsert (join (join new_path (foldername data))
            (filename data @ ''_'' @ str_nat n @ snd (splitext (file_path data)))) renamed_files"
proof -
  have "handle_duplicates (join new_path (foldername data)) (filename data)
          (snd (splitext (file_path data))) renamed_files 1
          (filename data @ snd (splitext (file_path data)),
           join (join new_path (foldername data))
             (filename data @ snd (splitext (file_path data)))) =
        (suffixed_name (filename data) (snd (splitext (file_path data))) n,
         join (join new_path (foldername data))
           (suffixed_name (filename data) (snd (splitext (file_path data))) n))"
    using assms(3,2,4,5) by (rule handle_duplicates_least)
  with assms(1) show ?thesis
    by (simp add: compute_operations_def Let_def suffixed_name_def)
qed

theorem suffix_continues_witness:
  "map destination (fst (compute_operations
       [\<lparr>file_path = ''/in/c.txt'', foldername = ''docs'', filename = ''report''\<rparr>] ''/out''
       {|''/out/docs/report.txt'', ''/out/docs/report_1.txt''|} {|''/in/a.txt'', ''/in/b.txt''|})) =
   [''/out/docs/report_2.txt'']"
proof -
  let ?data = "\<lparr>file_path = ''/in/c.txt'', foldername = ''docs'', filename = ''report''\<rparr>"
  let ?R = "{|''/out/docs/report.txt'', ''/out/docs/report_1.txt''|}"
  have e: "snd (splitext ''/in/c.txt'') = ''.txt''" by code_simp
  have d: "join ''/out'' ''docs'' = ''/out/docs''" by code_simp
  have n0: "join ''/out/docs'' (''report'' @ ''.txt'') = ''/out/docs/report.txt''" by code_simp
  have n1: "join ''/out/docs'' (suffixed_name ''report'' ''.txt'' (Suc 0)) = ''/out/docs/report_1.txt''"
    by code_simp
  have n2: "join ''/out/docs'' (suffixed_name ''report'' ''.txt'' 2) = ''/out/docs/report_2.txt''"
    by code_simp
  have n2': "join ''/out/docs'' (''report'' @ ''_'' @ str_nat 2 @ ''.txt'') = ''/out/docs/report_2.txt''"
    by code_simp
  have h1: "file_path ?data |\<notin>| {|''/in/a.txt'', ''/in/b.txt''|}" by simp
  have h3: "join (join ''/out'' (foldername ?data)) (filename ?data @ snd (splitext (file_path ?data)))
              |\<in>| ?R"
    by (simp add: e d n0 del: append.simps)
  have h4: "\<forall>k. 1 \<le> k \<and> k < 2 \<longrightarrow>
           join (join ''/out'' (foldername ?data))
             (suffixed_name (filename ?data) (snd (splitext (file_path ?data))) k) |\<in>| ?R"
  proof (intro allI impI)
    fix k :: nat assume "1 \<le> k \<and> k < 2"
    then have "k = 1" by simp
    then show "join (join ''/out'' (foldername ?data))
             (suffixed_name (filename ?data) (snd (splitext (file_path ?data))) k) |\<in>| ?R"
      by (simp add: e d n1)
  qed
  have h5: "join (join ''/out'' (foldername ?data))
           (suffixed_name (filename ?data) (snd (splitext (file_path ?data))) 2) |\<notin>| ?R"
    by (simp add: e d n2)
  have "(1::nat) \<le> 2" by simp
  from suffix_continues[OF h1 this h3 h4 h5]
  show ?thesis by (simp add: e d n2' del: append.simps)
qed

section \<open>Planning by type: the folder of a path\<close>

text \<open>Lower-casing keeps dots and slashes, so it commutes with \<open>splitext\<close>.\<close>

lemma of_char_lower_char:
  "(of_char (lower_char c) :: nat) =
     (if (65 \<le> (of_char c :: nat) \<and> (of_char c :: nat) \<le> 90)
         \<or> (192 \<le> (of_char c :: nat) \<and> (of_char c :: nat) \<le> 214)
         \<or> (216 \<le> (of_char c :: nat) \<and> (of_char c :: nat) \<le> 222)
      then of_char c + 32 else of_char c)"
  by (auto simp: lower_char_def Let_def of_char_of take_bit_nat_eq_self)

lemma lower_char_eq_dot: "lower_char c = CHR ''.'' \<longleftrightarrow> c = CHR ''.''"
proof -
  have "lower_char c = CHR ''.'' \<longleftrightarrow> (of_char (lower_char c) :: nat) = of_char CHR ''.''"
    by (metis of_char_eq_iff)
  also have "\<dots> \<longleftrightarrow> (of_char c :: nat) = of_char CHR ''.''"
    unfolding of_char_lower_char by auto
  also have "\<dots> \<longleftrightarrow> c = CHR ''.''" by (metis of_char_eq_iff)
  finally show ?thesis .
qed

lemma lower_char_eq_slash: "lower_char c = CHR ''/'' \<longleftrightarrow> c = CHR ''/''"
proof -
  have "lower_char c = CHR ''/'' \<longleftrightarrow> (of_char (lower_char c) :: nat) = of_char CHR ''/''"
    by (metis of_char_eq_iff)
  also have "\<dots> \<longleftrightarrow> (of_char c :: nat) = of_char CHR ''/''"
    unfolding of_char_lower_char by auto
  also have "\<dots> \<longleftrightarrow> c = CHR ''/''" by (metis of_char_eq_iff)
  finally show ?thesis .
qed

lemma rfind_map:
  assumes "\<And>x. f x = c \<longleftrightarrow> x = c"
  shows "rfind c (map f p) = rfind c p"
proof -
  have "takeWhile (\<lambda>x. x \<noteq> c) (map f (rev p)) = map f (takeWhile (\<lambda>x. x \<noteq> c) (rev p))"
    by (simp add: takeWhile_map comp_def assms)
  moreover have "c \<in> set (map f p) \<longleftrightarrow> c \<in> set p"
  proof
    assume "c \<in> set (map f p)"
    then obtain x where "x \<in> set p" "f x = c" by auto
    with assms show "c \<in> set p" by simp
  next
    assume "c \<in> set p"
    moreover have "f c = c" using assms by simp
    ultimately show "c \<in> set (map f p)" by force
  qed
  ultimately show ?thesis
    by (simp add: rfind_def rev_map del: set_map)
qed

lemma splitext_lower: "splitext (lower p) = (lower (fst (splitext p)), lower (snd (splitext p)))"
proof -
  have s: "rfind CHR ''/'' (lower p) = rfind CHR ''/'' p"
    unfolding lower_def by (rule rfind_map) (rule lower_char_eq_slash)
  have d: "rfind CHR ''.'' (lower p) = rfind CHR ''.'' p"
    unfolding lower_def by (rule rfind_map) (rule lower_char_eq_dot)
  have ex: "list_ex (\<lambda>c. c \<noteq> CHR ''.'') (map lower_char xs) = list_ex (\<lambda>c. c \<noteq> CHR ''.'') xs" for xs
    by (induction xs) (simp_all add: lower_char_eq_dot)
  show ?thesis
    unfolding splitext_def s d Let_def
    by (simp add: lower_def take_map drop_map ex)
qed

text \<open>What the three nested loops put into \<open>extension_to_category\<close>.\<close>

lemma fold_lookup_Some:
  assumes step: "\<And>a m. f a m e = Some v \<Longrightarrow> m e = Some v \<or> Q a"
    and "fold f xs m0 e = Some v"
  shows "m0 e = Some v \<or> (\<exists>a \<in> set xs. Q a)"
  using assms(2)
proof (induction xs arbitrary: m0)
  case Nil
  then show ?case by simp
next
  case (Cons a xs)
  then have "fold f xs (f a m0) e = Some v" by simp
  from Cons.IH[OF this] step[of a m0] show ?case by auto
qed

lemma fold_lookup_None:
  assumes step: "\<And>a m. f a m e = None \<longleftrightarrow> m e = None \<and> \<not> Q a"
  shows "fold f xs m0 e = None \<longleftrightarrow> m0 e = None \<and> (\<forall>a \<in> set xs. \<not> Q a)"
proof (induction xs arbitrary: m0)
  case Nil
  show ?case by simp
next
  case (Cons a xs)
  have "fold f (a # xs) m0 e = fold f xs (f a m0) e" by simp
  with Cons.IH[of "f a m0"] step[of a m0] show ?case by auto
qed

lemma extensions_Some:
  "fold (\<lambda>ext m. m(ext \<mapsto> w)) exts m0 e = Some v \<Longrightarrow> m0 e = Some v \<or> (e \<in> set exts \<and> v = w)"
  by (drule fold_lookup_Some[where Q = "\<lambda>ext. e = ext \<and> v = w", rotated])
     (auto split: if_splits)

lemma extensions_None:
  "fold (\<lambda>ext m. m(ext \<mapsto> w)) exts m0 e = None \<longleftrightarrow> m0 e = None \<and> e \<notin> set exts"
  by (subst fold_lookup_None[where Q = "\<lambda>ext. e = ext"]) auto

lemma subcategories_Some:
  assumes "fold (\<lambda>(subcategory, extensions).
           fold (\<lambda>ext m. m(ext \<mapsto> (main, subcategory))) extensions) subs (m0 :: string \<rightharpoonup> string \<times> string) e = Some v"
  shows "m0 e = Some v \<or> (\<exists>a \<in> set subs. e \<in> set (snd a) \<and> v = (main, fst a))"
proof (rule fold_lookup_Some[OF _ assms])
  fix a :: "string \<times> string list" and m :: "string \<rightharpoonup> string \<times> string"
  assume "(case a of (subcategory, extensions) \<Rightarrow>
             fold (\<lambda>ext m. m(ext \<mapsto> (main, subcategory))) extensions) m e = Some v"
  then have "fold (\<lambda>ext m. m(ext \<mapsto> (main, fst a))) (snd a) m e = Some v"
    by (simp add: case_prod_beta)
  from extensions_Some[OF this] show "m e = Some v \<or> e \<in> set (snd a) \<and> v = (main, fst a)" .
qed

lemma subcategories_None:
  "fold (\<lambda>(subcategory, extensions).
           fold (\<lambda>ext m. m(ext \<mapsto> (main, subcategory))) extensions) subs (m0 :: string \<rightharpoonup> string \<times> string) e = None \<longleftrightarrow>
   m0 e = None \<and> (\<forall>a \<in> set subs. \<not> e \<in> set (snd a))"
proof (rule fold_lookup_None)
  fix a :: "string \<times> string list" and m :: "string \<rightharpoonup> string \<times> string"
  have "(case a of (subcategory, extensions) \<Rightarrow>
             fold (\<lambda>ext m. m(ext \<mapsto> (main, subcategory))) extensions) m e =
        fold (\<lambda>ext m. m(ext \<mapsto> (main, fst a))) (snd a) m e"
    by (simp add: case_prod_beta)
  then show "((case a of (subcategory, extensions) \<Rightarrow>
             fold (\<lambda>ext m. m(ext \<mapsto> (main, subcategory))) extensions) m e = None) =
          (m e = None \<and> \<not> e \<in> set (snd a))"
    by (simp only: extensions_None)
qed

lemma categories_Some:
  assumes "fold (\<lambda>(main_category, subcategories).
           fold (\<lambda>(subcategory, extensions).
                   fold (\<lambda>ext m. m(ext \<mapsto> (main_category, subcategory))) extensions)
                subcategories) cats (m0 :: string \<rightharpoonup> string \<times> string) e = Some v"
  shows "m0 e = Some v \<or>
     (\<exists>c \<in> set cats. \<exists>a \<in> set (snd c). e \<in> set (snd a) \<and> v = (fst c, fst a))"
proof (rule fold_lookup_Some[OF _ assms])
  fix c :: "string \<times> (string \<times> string list) list" and m :: "string \<rightharpoonup> string \<times> string"
  assume "(case c of (main_category, subcategories) \<Rightarrow>
           fold (\<lambda>(subcategory, extensions).
                   fold (\<lambda>ext m. m(ext \<mapsto> (main_category, subcategory))) extensions)
                subcategories) m e = Some v"
  then have "fold (\<lambda>(subcategory, extensions).
                   fold (\<lambda>ext m. m(ext \<mapsto> (fst c, subcategory))) extensions) (snd c) m e = Some v"
    by (simp add: case_prod_beta)
  from subcategories_Some[OF this]
  show "m e = Some v \<or> (\<exists>a \<in> set (snd c). e \<in> set (snd a) \<and> v = (fst c, fst a))" .
qed

lemma categories_None:
  "fold (\<lambda>(main_category, subcategories).
           fold (\<lambda>(subcategory, extensions).
                   fold (\<lambda>ext m. m(ext \<mapsto> (main_category, subcategory))) extensions)
                subcategories) cats (m0 :: string \<rightharpoonup> string \<times> string) e = None \<longleftrightarrow>
   m0 e = None \<and> (\<forall>c \<in> set cats. \<not> (\<exists>a \<in> set (snd c). e \<in> set (snd a)))"
proof (rule fold_lookup_None)
  fix c :: "string \<times> (string \<times> string list) list" and m :: "string \<rightharpoonup> string \<times> string"
  have "(case c of (main_category, subcategories) \<Rightarrow>
           fold (\<lambda>(subcategory, extensions).
                   fold (\<lambda>ext m. m(ext \<mapsto> (main_category, subcategory))) extensions)
                subcategories) m e =
        fold (\<lambda>(subcategory, extensions).
                   fold (\<lambda>ext m. m(ext \<mapsto> (fst c, subcategory))) extensions) (snd c) m e"
    by (simp add: case_prod_beta)
  then show "((case c of (main_category, subcategories) \<Rightarrow>
           fold (\<lambda>(subcategory, extensions).
                   fold (\<lambda>ext m. m(ext \<mapsto> (main_category, subcategory))) extensions)
                subcategories) m e = None) =
          (m e = None \<and> \<not> (\<exists>a \<in> set (snd c). e \<in> set (snd a)))"
    by (simp only: subcategories_None) simp
qed

lemma extension_listed:
  assumes "extension_to_category e = Some (main, s)"
  shows "\<exists>subs exts. (main, subs) \<in> set file_categories \<and> (s, exts) \<in> set subs \<and> e \<in> set exts"
proof -
  from categories_Some[OF assms[unfolded extension_to_category_def]]
  obtain c a where "c \<in> set file_categories" "a \<in> set (snd c)" "e \<in> set (snd a)"
    "(main, s) = (fst c, fst a)" by auto
  then show ?thesis
    by (intro exI[of _ "snd c"] exI[of _ "snd a"]) simp
qed

lemma extension_unlisted:
  "extension_to_category e = None \<longleftrightarrow>
   (\<forall>c \<in> set file_categories. \<forall>a \<in> set (snd c). e \<notin> set (snd a))"
  unfolding extension_to_category_def by (simp only: categories_None) simp

lemma fold_single:
  "fold (\<lambda>(main_category, subcategories) acc.
           if length subcategories = 1 then acc @ [main_category] else acc) cats acc0 =
   acc0 @ map fst (filter (\<lambda>(main, subs). length subs = 1) cats)"
  by (induction cats arbitrary: acc0) (auto)

lemma single_subcategory_mains_eq:
  "single_subcategory_mains = map fst (filter (\<lambda>(main, subs). length subs = 1) file_categories)"
  unfolding single_subcategory_mains_def by (simp only: fold_single append_Nil)

lemma single_subcategory_mains_value:
  "single_subcategory_mains = [''archives'', ''fonts'', ''web'', ''system'']"
  by code_simp

lemma distinct_mains: "distinct (map fst file_categories)"
  by code_simp

lemma single_iff:
  assumes "(main, subs) \<in> set file_categories"
  shows "main \<in> set single_subcategory_mains \<longleftrightarrow> length subs = 1"
proof
  assume "main \<in> set single_subcategory_mains"
  then obtain subs' where "(main, subs') \<in> set file_categories" "length subs' = 1"
    by (auto simp: single_subcategory_mains_eq)
  with assms distinct_mains show "length subs = 1"
    by (metis eq_key_imp_eq_value)
next
  assume "length subs = 1"
  with assms show "main \<in> set single_subcategory_mains"
    by (force simp: single_subcategory_mains_eq)
qed

lemma names_join:
  "\<forall>(main, subs) \<in> set file_categories.
     main \<noteq> [] \<and> \<not> endswith main CHR ''/'' \<and> (\<forall>(s, exts) \<in> set subs. \<not> startswith s CHR ''/'')"
  by code_simp

lemma join_main_sub:
  assumes "(main, subs) \<in> set file_categories" "(s, exts) \<in> set subs"
  shows "join main s = main @ ''/'' @ s"
  using names_join assms by (fastforce simp: join_def)

lemma folder_name_of_lower:
  "lower p = lower q \<Longrightarrow> folder_name_of p = folder_name_of q"
proof -
  assume a: "lower p = lower q"
  have "lower (snd (splitext p)) = snd (splitext (lower p))"
    by (simp add: splitext_lower)
  also have "\<dots> = snd (splitext (lower q))" by (simp only: a)
  also have "\<dots> = lower (snd (splitext q))" by (simp add: splitext_lower)
  finally show ?thesis by (simp add: folder_name_of_def)
qed


text \<open>
  The taxonomy as a list of listings: one entry (extension, main category,
  subcategory) for every extension written in the dictionary literal, in the order in
  which the three nested loops visit them. An extension written under two
  subcategories has two entries.
\<close>

definition listings :: "(string \<times> string \<times> string) list" where
  "listings =
     concat (map (\<lambda>(main_category, subcategories).
               concat (map (\<lambda>(subcategory, extensions).
                         map (\<lambda>ext. (ext, main_category, subcategory)) extensions)
                       subcategories))
             file_categories)"

text \<open>The last listing of an extension.\<close>

definition last_listing :: "string \<Rightarrow> (string \<times> string) option" where
  "last_listing ext = map_of (rev listings) ext"

text \<open>The number of subcategories of a main category (0 for a name that is no main
  category of the taxonomy).\<close>

definition subcategory_count :: "string \<Rightarrow> nat" where
  "subcategory_count main_category =
     (case map_of file_categories main_category of
        None \<Rightarrow> 0
      | Some subcategories \<Rightarrow> length subcategories)"

text \<open>The extensions that the taxonomy lists under two subcategories.\<close>

definition listed_twice :: "string list" where
  "listed_twice = [''.log'', ''.php'', ''.bak'']"

text \<open>The flat table holds, for every extension, its last listing: a later assignment
  overwrites an earlier one.\<close>

lemma fold_map_of:
  assumes "\<And>a m. f a m = m ++ map_of (rev (g a))"
  shows "fold f xs m0 = m0 ++ map_of (rev (concat (map g xs)))"
proof (induction xs arbitrary: m0)
  case Nil
  show ?case by simp
next
  case (Cons a xs)
  have "fold f (a # xs) m0 = fold f xs (f a m0)" by simp
  also have "\<dots> = (m0 ++ map_of (rev (g a))) ++ map_of (rev (concat (map g xs)))"
    by (simp only: Cons.IH assms)
  also have "\<dots> = m0 ++ map_of (rev (concat (map g (a # xs))))"
    by (simp add: map_add_assoc)
  finally show ?case .
qed

lemma extensions_map_of:
  "fold (\<lambda>ext m. m(ext \<mapsto> w)) exts m0 = m0 ++ map_of (rev (map (\<lambda>ext. (ext, w)) exts))"
proof -
  have "fold (\<lambda>ext m. m(ext \<mapsto> w)) exts m0 =
        m0 ++ map_of (rev (concat (map (\<lambda>ext. [(ext, w)]) exts)))"
    by (rule fold_map_of) simp
  also have "concat (map (\<lambda>ext. [(ext, w)]) exts) = map (\<lambda>ext. (ext, w)) exts"
    by (induction exts) simp_all
  finally show ?thesis .
qed

lemma subcategories_map_of:
  "fold (\<lambda>(subcategory, extensions).
           fold (\<lambda>ext m. m(ext \<mapsto> (main, subcategory))) extensions) subs
        (m0 :: string \<rightharpoonup> string \<times> string) =
   m0 ++ map_of (rev (concat (map (\<lambda>(subcategory, extensions).
                         map (\<lambda>ext. (ext, main, subcategory)) extensions) subs)))"
  by (rule fold_map_of) (simp add: case_prod_beta extensions_map_of)

lemma categories_map_of:
  "fold (\<lambda>(main_category, subcategories).
           fold (\<lambda>(subcategory, extensions).
                   fold (\<lambda>ext m. m(ext \<mapsto> (main_category, subcategory))) extensions)
                subcategories) cats (m0 :: string \<rightharpoonup> string \<times> string) =
   m0 ++ map_of (rev (concat (map (\<lambda>(main_category, subcategories).
               concat (map (\<lambda>(subcategory, extensions).
                         map (\<lambda>ext. (ext, main_category, subcategory)) extensions)
                       subcategories)) cats)))"
  by (rule fold_map_of) (simp add: case_prod_beta subcategories_map_of)

lemma extension_to_category_last_listing: "extension_to_category = last_listing"
proof
  fix e
  show "extension_to_category e = last_listing e"
    unfolding extension_to_category_def last_listing_def listings_def
    by (simp only: categories_map_of) simp
qed


text \<open>Apart from the three, no extension is listed twice.\<close>

lemma listed_once:
  "distinct (map fst (filter (\<lambda>(ext, c). ext \<notin> set listed_twice) listings))"
  by code_simp

lemma all_but_three_listed_once:
  assumes "(ext, c) \<in> set listings" "ext \<notin> set listed_twice"
  shows "last_listing ext = Some c"
proof -
  let ?F = "filter (\<lambda>(ext, c). ext \<notin> set listed_twice) listings"
  from assms have "ext \<in> fst ` set (rev listings)" by force
  then obtain c' where c': "map_of (rev listings) ext = Some c'"
    by (metis map_of_eq_None_iff not_Some_eq)
  then have "(ext, c') \<in> set listings" by (auto dest: map_of_SomeD)
  with assms have "(ext, c) \<in> set ?F" "(ext, c') \<in> set ?F" by auto
  with listed_once have "c = c'" by (metis eq_key_imp_eq_value)
  with c' show ?thesis by (simp add: last_listing_def)
qed


text \<open>The loop of \<open>process_files_by_type\<close> files every path that is not hidden under
  its folder, in the order of the input.\<close>

lemma by_type_loop_eq:
  "by_type_loop output_path file_paths operations =
   operations @
   map (\<lambda>p. \<lparr>source = p,
              destination = join (join output_path (folder_name_of p)) (basename p),
              link_type = ''hardlink''\<rparr>)
       (filter (\<lambda>p. \<not> startswith (basename p) CHR ''.'') file_paths)"
  by (induction file_paths arbitrary: operations) (simp_all add: Let_def)

lemma folder_name_of_last_listing:
  "folder_name_of p =
     (case last_listing (lower (snd (splitext p))) of
        None \<Rightarrow> ''others''
      | Some (main, sub) \<Rightarrow> if subcategory_count main = 1 then main else main @ ''/'' @ sub)"
proof (cases "extension_to_category (lower (snd (splitext p)))")
  case None
  then show ?thesis
    by (simp add: folder_name_of_def extension_to_category_last_listing[symmetric])
next
  case (Some v)
  obtain main s where v: "v = (main, s)" by (cases v)
  from Some v have a: "extension_to_category (lower (snd (splitext p))) = Some (main, s)" by simp
  from extension_listed[OF a] obtain subs exts where
    l: "(main, subs) \<in> set file_categories" "(s, exts) \<in> set subs" by blast
  from l(1) distinct_mains have m: "map_of file_categories main = Some subs" by simp
  then have c: "subcategory_count main = length subs" by (simp add: subcategory_count_def)
  show ?thesis
    using a single_iff[OF l(1)] join_main_sub[OF l(1,2)] c
    by (simp add: folder_name_of_def extension_to_category_last_listing[symmetric])
qed

lemma last_listing_None: "last_listing e = None \<longleftrightarrow> e \<notin> fst ` set listings"
  by (simp add: last_listing_def map_of_eq_None_iff)

lemma last_listing_twice:
  "last_listing ''.log'' = Some (''system'', ''system_files'')
   \<and> last_listing ''.php'' = Some (''web'', ''web_assets'')
   \<and> last_listing ''.bak'' = Some (''system'', ''system_files'')"
  by code_simp

lemma single_subcategory_count:
  "filter (\<lambda>main. subcategory_count main = 1) (map fst file_categories) =
     [''archives'', ''fonts'', ''web'', ''system'']"
  by code_simp

text \<open>
  C6, amended. The folder that planning by type gives a path is decided by the
  lower-cased extension through the taxonomy. An extension that the taxonomy lists
  nowhere goes to \<^verbatim>\<open>others\<close>. A listed extension goes by its last listing
  \<open>(main, sub)\<close>: to the bare \<open>main\<close> when \<open>main\<close> has exactly one subcategory, to
  \<open>main/sub\<close> otherwise. Every extension but \<^verbatim>\<open>.log\<close>, \<^verbatim>\<open>.php\<close> and \<^verbatim>\<open>.bak\<close> is
  listed once, so that its one listing decides; these three are listed twice, and
  their last listings are under \<^verbatim>\<open>system\<close>, \<^verbatim>\<open>web\<close> and \<^verbatim>\<open>system\<close>. The main
  categories with exactly one subcategory are archives, fonts, web and system.
  \<open>process_files_by_type\<close> emits, for every path whose basename does not start with a
  dot and in the order of the input, the hard-link operation from the path to
  \<open>output_path/folder/basename\<close> with that folder. Two paths that are equal up to
  letter case, so in particular two paths that differ only in the letter case of the
  extension, get the same folder.
\<close>

theorem classify_by_last_listing:
  "folder_name_of p =
     (case last_listing (lower (snd (splitext p))) of
        None \<Rightarrow> ''others''
      | Some (main, sub) \<Rightarrow> if subcategory_count main = 1 then main else main @ ''/'' @ sub)
   \<and> (last_listing e = None \<longleftrightarrow> e \<notin> fst ` set listings)
   \<and> (\<forall>(ext, c) \<in> set listings. ext \<notin> set listed_twice \<longrightarrow> last_listing ext = Some c)
   \<and> last_listing ''.log'' = Some (''system'', ''system_files'')
   \<and> last_listing ''.php'' = Some (''web'', ''web_assets'')
   \<and> last_listing ''.bak'' = Some (''system'', ''system_files'')
   \<and> filter (\<lambda>main. subcategory_count main = 1) (map fst file_categories) =
        [''archives'', ''fonts'', ''web'', ''system'']
   \<and> process_files_by_type file_paths output_path =
        map (\<lambda>p. \<lparr>source = p,
                   destination = join (join output_path (folder_name_of p)) (basename p),
                   link_type = ''hardlink''\<rparr>)
            (filter (\<lambda>p. \<not> startswith (basename p) CHR ''.'') file_paths)
   \<and> (lower p = lower q \<longrightarrow> folder_name_of p = folder_name_of q)"
proof (intro conjI)
  show "folder_name_of p =
     (case last_listing (lower (snd (splitext p))) of
        None \<Rightarrow> ''others''
      | Some (main, sub) \<Rightarrow> if subcategory_count main = 1 then main else main @ ''/'' @ sub)"
    by (rule folder_name_of_last_listing)
  show "last_listing e = None \<longleftrightarrow> e \<notin> fst ` set listings"
    by (rule last_listing_None)
  show "\<forall>(ext, c) \<in> set listings. ext \<notin> set listed_twice \<longrightarrow> last_listing ext = Some c"
    using all_but_three_listed_once by blast
  show "last_listing ''.log'' = Some (''system'', ''system_files'')"
    using last_listing_twice by blast
  show "last_listing ''.php'' = Some (''web'', ''web_assets'')"
    using last_listing_twice by blast
  show "last_listing ''.bak'' = Some (''system'', ''system_files'')"
    using last_listing_twice by blast
  show "filter (\<lambda>main. subcategory_count main = 1) (map fst file_categories) =
        [''archives'', ''fonts'', ''web'', ''system'']"
    by (rule single_subcategory_count)
  show "process_files_by_type file_paths output_path =
        map (\<lambda>p. \<lparr>source = p,
                   destination = join (join output_path (folder_name_of p)) (basename p),
                   link_type = ''hardlink''\<rparr>)
            (filter (\<lambda>p. \<not> startswith (basename p) CHR ''.'') file_paths)"
    by (simp add: process_files_by_type_def by_type_loop_eq)
  show "lower p = lower q \<longrightarrow> folder_name_of p = folder_name_of q"
    using folder_name_of_lower by blast
qed

text \<open>Examples: an extension of a category with four subcategories, one of a category
  with a single subcategory, an unlisted one, and a hidden file.\<close>

lemma last_listing_JPG:
  "last_listing (lower (snd (splitext ''/in/photo.JPG''))) = Some (''images'', ''raster_images'')"
  by code_simp

lemma last_listing_ZIP:
  "last_listing (lower (snd (splitext ''/in/old.ZIP''))) = Some (''archives'', ''common'')"
  by code_simp

lemma last_listing_xyz: "last_listing (lower (snd (splitext ''/in/notes.xyz''))) = None"
  by code_simp

lemma count_images: "subcategory_count ''images'' = 4"
  by code_simp

lemma count_archives: "subcategory_count ''archives'' = 1"
  by code_simp

lemma lower_JPG: "lower ''/in/photo.JPG'' = lower ''/in/photo.jpg''"
  by code_simp

lemma jpg_listed: "(''.jpg'', ''images'', ''raster_images'') \<in> set listings"
  by code_simp

lemma jpg_once: "''.jpg'' \<notin> set listed_twice"
  by code_simp

lemma planned_example:
  "map (\<lambda>p. \<lparr>source = p,
              destination = join (join ''/out'' (folder_name_of p)) (basename p),
              link_type = ''hardlink''\<rparr>)
       (filter (\<lambda>p. \<not> startswith (basename p) CHR ''.'')
          [''/in/photo.JPG'', ''/in/.hidden.png'', ''/in/old.ZIP'', ''/in/notes.xyz'']) =
   [\<lparr>source = ''/in/photo.JPG'', destination = ''/out/images/raster_images/photo.JPG'',
     link_type = ''hardlink''\<rparr>,
    \<lparr>source = ''/in/old.ZIP'', destination = ''/out/archives/old.ZIP'', link_type = ''hardlink''\<rparr>,
    \<lparr>source = ''/in/notes.xyz'', destination = ''/out/others/notes.xyz'',
     link_type = ''hardlink''\<rparr>]"
  by code_simp

theorem classify_by_last_listing_witness:
  "folder_name_of ''/in/photo.JPG'' = ''images/raster_images''
   \<and> folder_name_of ''/in/old.ZIP'' = ''archives''
   \<and> folder_name_of ''/in/notes.xyz'' = ''others''
   \<and> last_listing ''.jpg'' = Some (''images'', ''raster_images'')
   \<and> folder_name_of ''/in/photo.JPG'' = folder_name_of ''/in/photo.jpg''
   \<and> process_files_by_type
        [''/in/photo.JPG'', ''/in/.hidden.png'', ''/in/old.ZIP'', ''/in/notes.xyz''] ''/out'' =
      [\<lparr>source = ''/in/photo.JPG'', destination = ''/out/images/raster_images/photo.JPG'',
        link_type = ''hardlink''\<rparr>,
       \<lparr>source = ''/in/old.ZIP'', destination = ''/out/archives/old.ZIP'',
        link_type = ''hardlink''\<rparr>,
       \<lparr>source = ''/in/notes.xyz'', destination = ''/out/others/notes.xyz'',
        link_type = ''hardlink''\<rparr>]"
proof (intro conjI)
  from classify_by_last_listing[where p = "''/in/photo.JPG''"]
  have "folder_name_of ''/in/photo.JPG'' =
     (case last_listing (lower (snd (splitext ''/in/photo.JPG''))) of
        None \<Rightarrow> ''others''
      | Some (main, sub) \<Rightarrow> if subcategory_count main = 1 then main else main @ ''/'' @ sub)"
    by blast
  then show "folder_name_of ''/in/photo.JPG'' = ''images/raster_images''"
    by (simp add: last_listing_JPG count_images)
next
  from classify_by_last_listing[where p = "''/in/old.ZIP''"]
  have "folder_name_of ''/in/old.ZIP'' =
     (case last_listing (lower (snd (splitext ''/in/old.ZIP''))) of
        None \<Rightarrow> ''others''
      | Some (main, sub) \<Rightarrow> if subcategory_count main = 1 then main else main @ ''/'' @ sub)"
    by blast
  then show "folder_name_of ''/in/old.ZIP'' = ''archives''"
    by (simp add: last_listing_ZIP count_archives)
next
  from classify_by_last_listing[where p = "''/in/notes.xyz''"]
  have "folder_name_of ''/in/notes.xyz'' =
     (case last_listing (lower (snd (splitext ''/in/notes.xyz''))) of
        None \<Rightarrow> ''others''
      | Some (main, sub) \<Rightarrow> if subcategory_count main = 1 then main else main @ ''/'' @ sub)"
    by blast
  then show "folder_name_of ''/in/notes.xyz'' = ''others''"
    by (simp add: last_listing_xyz)
next
  from classify_by_last_listing[where p = "[]"]
  have "\<forall>(ext, c) \<in> set listings. ext \<notin> set listed_twice \<longrightarrow> last_listing ext = Some c"
    by blast
  with jpg_listed jpg_once show "last_listing ''.jpg'' = Some (''images'', ''raster_images'')"
    by blast
next
  from classify_by_last_listing[where p = "''/in/photo.JPG''" and q = "''/in/photo.jpg''"] lower_JPG
  show "folder_name_of ''/in/photo.JPG'' = folder_name_of ''/in/photo.jpg''" by blast
next
  from classify_by_last_listing[where p = "[]" and output_path = "''/out''" and file_paths =
      "[''/in/photo.JPG'', ''/in/.hidden.png'', ''/in/old.ZIP'', ''/in/notes.xyz'']"]
  have "process_files_by_type
        [''/in/photo.JPG'', ''/in/.hidden.png'', ''/in/old.ZIP'', ''/in/notes.xyz''] ''/out'' =
     map (\<lambda>p. \<lparr>source = p,
              destination = join (join ''/out'' (folder_name_of p)) (basename p),
              link_type = ''hardlink''\<rparr>)
       (filter (\<lambda>p. \<not> startswith (basename p) CHR ''.'')
          [''/in/photo.JPG'', ''/in/.hidden.png'', ''/in/old.ZIP'', ''/in/notes.xyz''])"
    by blast
  then show "process_files_by_type
        [''/in/photo.JPG'', ''/in/.hidden.png'', ''/in/old.ZIP'', ''/in/notes.xyz''] ''/out'' =
      [\<lparr>source = ''/in/photo.JPG'', destination = ''/out/images/raster_images/photo.JPG'',
        link_type = ''hardlink''\<rparr>,
       \<lparr>source = ''/in/old.ZIP'', destination = ''/out/archives/old.ZIP'',
        link_type = ''hardlink''\<rparr>,
       \<lparr>source = ''/in/notes.xyz'', destination = ''/out/others/notes.xyz'',
        link_type = ''hardlink''\<rparr>]"
    by (simp only: planned_example)
qed

text \<open>
  C6, as stated, fails for the three extensions that are listed twice. \<^verbatim>\<open>.log\<close> is
  listed under \<^verbatim>\<open>plain_text\<close> of \<^verbatim>\<open>documents\<close>, a main category with seven
  subcategories, yet \<^verbatim>\<open>/var/app.log\<close> is filed under the bare \<^verbatim>\<open>system\<close> and not
  under \<^verbatim>\<open>documents/plain_text\<close>. Likewise \<^verbatim>\<open>.php\<close>, listed under \<^verbatim>\<open>scripts\<close> of
  \<^verbatim>\<open>code\<close> (five subcategories), goes to \<^verbatim>\<open>web\<close>, and \<^verbatim>\<open>.bak\<close>, listed under
  \<^verbatim>\<open>databases\<close> of \<^verbatim>\<open>data\<close> (two subcategories), goes to \<^verbatim>\<open>system\<close>.
\<close>

theorem first_listing_counterexample:
  "(''.log'', ''documents'', ''plain_text'') \<in> set listings
   \<and> subcategory_count ''documents'' = 7
   \<and> folder_name_of ''/var/app.log'' = ''system''
   \<and> process_files_by_type [''/var/app.log''] ''/out'' =
       [\<lparr>source = ''/var/app.log'', destination = ''/out/system/app.log'',
         link_type = ''hardlink''\<rparr>]
   \<and> (''.php'', ''code'', ''scripts'') \<in> set listings
   \<and> subcategory_count ''code'' = 5
   \<and> folder_name_of ''/srv/index.php'' = ''web''
   \<and> (''.bak'', ''data'', ''databases'') \<in> set listings
   \<and> subcategory_count ''data'' = 2
   \<and> folder_name_of ''/srv/db.bak'' = ''system''"
proof (intro conjI)
  show "(''.log'', ''documents'', ''plain_text'') \<in> set listings" by code_simp
  show "subcategory_count ''documents'' = 7" by code_simp
  show "folder_name_of ''/var/app.log'' = ''system''" by code_simp
  show "process_files_by_type [''/var/app.log''] ''/out'' =
       [\<lparr>source = ''/var/app.log'', destination = ''/out/system/app.log'',
         link_type = ''hardlink''\<rparr>]" by code_simp
  show "(''.php'', ''code'', ''scripts'') \<in> set listings" by code_simp
  show "subcategory_count ''code'' = 5" by code_simp
  show "folder_name_of ''/srv/index.php'' = ''web''" by code_simp
  show "(''.bak'', ''data'', ''databases'') \<in> set listings" by code_simp
  show "subcategory_count ''data'' = 2" by code_simp
  show "folder_name_of ''/srv/db.bak'' = ''system''" by code_simp
qed


section \<open>Executing operations: vocabulary and examples\<close>

text \<open>The entries of the trace that are calls on directories and links, those that
  deliver a message, and those whose call raised.\<close>

fun is_fs_call :: "effect \<Rightarrow> bool" where
  "is_fs_call (Makedirs _ _) = True"
| "is_fs_call (Link _ _ _) = True"
| "is_fs_call (Symlink _ _ _) = True"
| "is_fs_call _ = False"

fun is_output :: "effect \<Rightarrow> bool" where
  "is_output (Print _ _) = True"
| "is_output (Append _ _ _) = True"
| "is_output _ = False"

fun raised :: "effect \<Rightarrow> bool" where
  "raised (Makedirs _ r) = (r \<noteq> None)"
| "raised (Link _ _ r) = (r \<noteq> None)"
| "raised (Symlink _ _ r) = (r \<noteq> None)"
| "raised Advance = False"
| "raised (Append _ _ r) = (r \<noteq> None)"
| "raised (Print _ r) = (r \<noteq> None)"

text \<open>The message of line 262 for an operation.\<close>

definition message_of_dry_run :: "'a operation_scheme \<Rightarrow> string" where
  "message_of_dry_run operation =
     dry_run_message (link_type operation) (source operation) (destination operation)"

text \<open>
  What lines 278 to 284 add to the trace for one message, when the call that delivers
  it has the outcome \<open>r\<close>: a print when not silent, a line appended to the log when
  silent with a log file, nothing when silent without one.
\<close>

definition delivery :: "bool \<Rightarrow> string option \<Rightarrow> string \<Rightarrow> exn option \<Rightarrow> effect list" where
  "delivery silent log_file message r =
     (if silent then
        (case log_file of
           None \<Rightarrow> []
         | Some f \<Rightarrow> if f = [] then [] else [Append f (message @ [CHR 0x0A]) r])
      else [Print message r])"

text \<open>
  Two file systems for the examples. The state is the list of the paths written so
  far, and printing succeeds in both. In \<open>example_os\<close> every call succeeds, except
  that a link whose source is \<^verbatim>\<open>/in/missing\<close> fails; in \<open>readonly_os\<close> no directory
  can be made and the log cannot be written.
\<close>

definition example_os :: "string list os_calls" where
  "example_os =
     \<lparr>os_makedirs = (\<lambda>p s. (s @ [p], None)),
      os_link = (\<lambda>src dst s.
         if src = ''/in/missing'' then (s, Some (OSError ''[Errno 2] No such file or directory''))
         else (s @ [dst], None)),
      os_symlink = (\<lambda>src dst s.
         if src = ''/in/missing'' then (s, Some (OSError ''[Errno 2] No such file or directory''))
         else (s @ [dst], None)),
      append_line = (\<lambda>f l s. (s @ [f], None)),
      print_line = (\<lambda>m s. None)\<rparr>"

definition readonly_os :: "string list os_calls" where
  "readonly_os =
     \<lparr>os_makedirs = (\<lambda>p s. (s, Some (OSError ''[Errno 13] Permission denied''))),
      os_link = (\<lambda>src dst s. (s @ [dst], None)),
      os_symlink = (\<lambda>src dst s. (s @ [dst], None)),
      append_line = (\<lambda>f l s. (s, Some (OSError ''[Errno 13] Permission denied''))),
      print_line = (\<lambda>m s. None)\<rparr>"

definition sample_operations :: "operation list" where
  "sample_operations =
     [\<lparr>source = ''/in/a.txt'', destination = ''/out/docs/a.txt'', link_type = ''hardlink''\<rparr>,
      \<lparr>source = ''/in/missing'', destination = ''/out/docs/b.txt'', link_type = ''hardlink''\<rparr>,
      \<lparr>source = ''/in/c.txt'', destination = ''/out/docs/c.txt'', link_type = ''hardlink''\<rparr>]"

section \<open>Silent without a log file\<close>

lemma perform_outputs:
  "filter is_output (trace (snd (perform os dry_run operation w))) = filter is_output (trace w)"
  by (simp add: perform_def Let_def emit_def split: prod.splits option.splits)

lemma execute_one_silent_outputs:
  "log_file = None \<or> log_file = Some [] \<Longrightarrow>
   filter is_output (trace (snd (execute_one os dry_run True log_file operation w))) =
   filter is_output (trace w)"
  using perform_outputs[of os dry_run operation w]
  by (auto simp: execute_one_def report_def emit_def split: prod.splits sum.splits option.splits)

lemma execute_silent_outputs:
  "log_file = None \<or> log_file = Some [] \<Longrightarrow>
   filter is_output (trace (fst (snd (execute_operations os ops dry_run True log_file w)))) =
   filter is_output (trace w)"
proof (induction ops arbitrary: w)
  case Nil
  show ?case by simp
next
  case (Cons operation rest)
  obtain r1 w1 where one: "execute_one os dry_run True log_file operation w = (r1, w1)"
    by (cases "execute_one os dry_run True log_file operation w")
  from execute_one_silent_outputs[OF Cons.prems, of os dry_run operation w] one
  have w1: "filter is_output (trace w1) = filter is_output (trace w)" by simp
  show ?case
  proof (cases r1)
    case (Inl e)
    with one w1 show ?thesis by simp
  next
    case (Inr message)
    with one w1 Cons.IH[OF Cons.prems, of w1] show ?thesis
      by (simp add: case_prod_beta)
  qed
qed

text \<open>
  C10. With \<open>silent = True\<close> and no log file (\<^verbatim>\<open>None\<close>, or the empty string, which
  \<^verbatim>\<open>if log_file\<close> treats alike), \<open>execute_operations\<close> prints nothing and appends
  nothing to any log: the trace after the call has the same \<open>Print\<close> and \<open>Append\<close>
  entries as before it, for every list of operations, every file system and both
  values of \<open>dry_run\<close>, also when the call ends with an exception.
\<close>

theorem silent_without_log_discards:
  "filter is_output (trace (fst (snd (execute_operations os ops dry_run True None w)))) =
     filter is_output (trace w)
   \<and> filter is_output (trace (fst (snd (execute_operations os ops dry_run True (Some []) w)))) =
     filter is_output (trace w)"
  by (simp add: execute_silent_outputs)

section \<open>Dry runs\<close>

lemma perform_dry_run:
  "perform os True operation w = (Inr (message_of_dry_run operation), w)"
  by (simp add: perform_def message_of_dry_run_def Let_def)

lemma execute_one_dry_run_independent:
  "execute_one (os\<lparr>os_makedirs := mk, os_link := lk, os_symlink := sl\<rparr>) True silent log_file operation w =
   execute_one os True silent log_file operation w"
  by (simp add: execute_one_def perform_dry_run report_def split: option.splits)

lemma execute_dry_run_independent:
  "execute_operations (os\<lparr>os_makedirs := mk, os_link := lk, os_symlink := sl\<rparr>) ops True silent log_file w =
   execute_operations os ops True silent log_file w"
  by (induction ops arbitrary: w)
     (simp_all add: execute_one_dry_run_independent split: prod.splits sum.splits)

lemma delivery_outputs: "filter is_output (delivery silent log_file message r) = delivery silent log_file message r"
  by (simp add: delivery_def split: option.splits)

lemma delivery_fs_calls: "filter is_fs_call (delivery silent log_file message r) = []"
  by (simp add: delivery_def split: option.splits)

lemma delivery_raised: "e \<in> set (delivery silent log_file message r) \<Longrightarrow> raised e = (r \<noteq> None)"
  by (auto simp: delivery_def split: option.splits if_splits)

lemma execute_one_dry_run:
  "\<exists>fs1 r. execute_one os True silent log_file operation w =
       ((case r of None \<Rightarrow> Inr (message_of_dry_run operation) | Some e \<Rightarrow> Inl e),
        \<lparr>fs = fs1, trace = trace w @ Advance #
            delivery silent log_file (message_of_dry_run operation) r\<rparr>)
     \<and> ((silent \<longrightarrow> log_file = None \<or> log_file = Some []) \<longrightarrow> fs1 = fs w)
     \<and> (r \<noteq> None \<longrightarrow> delivery silent log_file (message_of_dry_run operation) r \<noteq> [])"
proof (cases silent)
  case False
  show ?thesis
    by (rule exI[of _ "fs w"], rule exI[of _ "print_line os (message_of_dry_run operation) (fs w)"])
       (simp add: False execute_one_def perform_dry_run report_def emit_def delivery_def
          split: option.splits)
next
  case True
  show ?thesis
  proof (cases "log_file = None \<or> log_file = Some []")
    case nolog: True
    show ?thesis
      by (rule exI[of _ "fs w"], rule exI[of _ None])
         (use True nolog in \<open>auto simp: execute_one_def perform_dry_run report_def emit_def
             delivery_def\<close>)
  next
    case False
    then obtain f where f: "log_file = Some f" "f \<noteq> []" by (cases log_file) auto
    obtain fs1 r where a: "append_line os f (message_of_dry_run operation @ [CHR 0x0A]) (fs w) = (fs1, r)"
      by (cases "append_line os f (message_of_dry_run operation @ [CHR 0x0A]) (fs w)")
    show ?thesis
      by (rule exI[of _ fs1], rule exI[of _ r])
         (simp add: True f a execute_one_def perform_dry_run report_def emit_def delivery_def
            split: option.splits)
  qed
qed


text \<open>What one turn of a dry run adds to the trace: \<^verbatim>\<open>progress.advance\<close>, then the
  delivery of the message of the operation, with the outcome \<open>r\<close>.\<close>

definition dry_run_turn :: "bool \<Rightarrow> string option \<Rightarrow> exn option \<Rightarrow> 'a operation_scheme \<Rightarrow> effect list" where
  "dry_run_turn silent log_file r operation =
     Advance # delivery silent log_file (message_of_dry_run operation) r"

lemma dry_run_turn_fs_calls: "filter is_fs_call (dry_run_turn silent log_file r operation) = []"
  by (simp add: dry_run_turn_def delivery_fs_calls)

lemma dry_run_turn_raised:
  "list_ex raised (dry_run_turn silent log_file r operation) =
     (r \<noteq> None \<and> delivery silent log_file (message_of_dry_run operation) r \<noteq> [])"
  by (auto simp: dry_run_turn_def delivery_def list_ex_iff split: option.splits)

lemma execute_one_dry_run_turn:
  "\<exists>fs1 r. execute_one os True silent log_file operation w =
       ((case r of None \<Rightarrow> Inr (message_of_dry_run operation) | Some e \<Rightarrow> Inl e),
        \<lparr>fs = fs1, trace = trace w @ dry_run_turn silent log_file r operation\<rparr>)
     \<and> ((silent \<longrightarrow> log_file = None \<or> log_file = Some []) \<longrightarrow> fs1 = fs w)
     \<and> (r \<noteq> None \<longrightarrow> silent \<longrightarrow> (\<exists>f. log_file = Some f \<and> f \<noteq> []))"
proof -
  from execute_one_dry_run[of os silent log_file operation w] obtain fs1 r where
    one: "execute_one os True silent log_file operation w =
       ((case r of None \<Rightarrow> Inr (message_of_dry_run operation) | Some e \<Rightarrow> Inl e),
        \<lparr>fs = fs1, trace = trace w @ Advance #
            delivery silent log_file (message_of_dry_run operation) r\<rparr>)"
    and f: "(silent \<longrightarrow> log_file = None \<or> log_file = Some []) \<longrightarrow> fs1 = fs w"
    and d: "r \<noteq> None \<longrightarrow> delivery silent log_file (message_of_dry_run operation) r \<noteq> []"
    by blast
  from d have d2: "r \<noteq> None \<longrightarrow> silent \<longrightarrow> (\<exists>f. log_file = Some f \<and> f \<noteq> [])"
    by (cases silent; cases log_file) (auto simp: delivery_def split: if_splits)
  from one f d2 show ?thesis unfolding dry_run_turn_def by blast
qed

lemma execute_dry_run_trace:
  "execute_operations os ops True silent log_file w = (messages, w', r) \<Longrightarrow>
   ((silent \<longrightarrow> log_file = None \<or> log_file = Some []) \<longrightarrow> fs w' = fs w)
   \<and> (case r of
        None \<Rightarrow>
          trace w' = trace w @ concat (map (dry_run_turn silent log_file None) ops)
          \<and> messages = map message_of_dry_run ops
      | Some e \<Rightarrow>
          (\<exists>k<length ops.
             trace w' = trace w @ concat (map (dry_run_turn silent log_file None) (take k ops))
                          @ dry_run_turn silent log_file (Some e) (ops ! k)
             \<and> messages = map message_of_dry_run (take k ops))
          \<and> (silent \<longrightarrow> (\<exists>f. log_file = Some f \<and> f \<noteq> [])))"
proof (induction ops arbitrary: w messages w' r)
  case Nil
  then show ?case by simp
next
  case (Cons operation rest)
  let ?nolog = "silent \<longrightarrow> log_file = None \<or> log_file = Some []"
  from execute_one_dry_run_turn[of os silent log_file operation w] obtain fs1 r1 where
    one: "execute_one os True silent log_file operation w =
       ((case r1 of None \<Rightarrow> Inr (message_of_dry_run operation) | Some e \<Rightarrow> Inl e),
        \<lparr>fs = fs1, trace = trace w @ dry_run_turn silent log_file r1 operation\<rparr>)"
    and f1: "?nolog \<longrightarrow> fs1 = fs w"
    and s1: "r1 \<noteq> None \<longrightarrow> silent \<longrightarrow> (\<exists>f. log_file = Some f \<and> f \<noteq> [])"
    by blast
  let ?w1 = "\<lparr>fs = fs1, trace = trace w @ dry_run_turn silent log_file r1 operation\<rparr>"
  show ?case
  proof (cases r1)
    case (Some e)
    from one have one': "execute_one os True silent log_file operation w =
       (Inl e, \<lparr>fs = fs1, trace = trace w @ dry_run_turn silent log_file (Some e) operation\<rparr>)"
      unfolding Some by simp
    from Cons.prems have res: "messages = []"
      "w' = \<lparr>fs = fs1, trace = trace w @ dry_run_turn silent log_file (Some e) operation\<rparr>"
      "r = Some e"
      unfolding execute_operations.simps one' by auto
    have k: "\<exists>k<length (operation # rest).
             trace w' = trace w @ concat (map (dry_run_turn silent log_file None) (take k (operation # rest)))
                          @ dry_run_turn silent log_file (Some e) ((operation # rest) ! k)
             \<and> messages = map message_of_dry_run (take k (operation # rest))"
      by (rule exI[of _ 0]) (simp add: res)
    from s1 Some have s: "silent \<longrightarrow> (\<exists>f. log_file = Some f \<and> f \<noteq> [])" by simp
    from f1 have "?nolog \<longrightarrow> fs w' = fs w" by (simp add: res)
    with s k show ?thesis unfolding res by simp
  next
    case None
    let ?w0 = "\<lparr>fs = fs1, trace = trace w @ dry_run_turn silent log_file None operation\<rparr>"
    from one have one': "execute_one os True silent log_file operation w =
       (Inr (message_of_dry_run operation), ?w0)"
      unfolding None by simp
    obtain ms w2 r2 where rec:
      "execute_operations os rest True silent log_file ?w0 = (ms, w2, r2)"
      by (cases "execute_operations os rest True silent log_file ?w0") auto
    from Cons.prems one' rec have res:
      "messages = message_of_dry_run operation # ms" "w' = w2" "r = r2"
      by auto
    note ih = Cons.IH[OF rec]
    from ih f1 have fsr: "?nolog \<longrightarrow> fs w' = fs w" by (simp add: res)
    show ?thesis
    proof (cases r2)
      case n2: None
      with ih have "trace w2 = trace ?w0 @ concat (map (dry_run_turn silent log_file None) rest)"
        "ms = map message_of_dry_run rest" by simp_all
      with fsr res n2 show ?thesis by simp
    next
      case (Some e)
      with ih obtain k where k: "k < length rest"
        "trace w2 = trace ?w0 @ concat (map (dry_run_turn silent log_file None) (take k rest))
                          @ dry_run_turn silent log_file (Some e) (rest ! k)"
        "ms = map message_of_dry_run (take k rest)"
        and s: "silent \<longrightarrow> (\<exists>f. log_file = Some f \<and> f \<noteq> [])"
        by auto
      have "\<exists>k<length (operation # rest).
             trace w' = trace w @ concat (map (dry_run_turn silent log_file None) (take k (operation # rest)))
                          @ dry_run_turn silent log_file (Some e) ((operation # rest) ! k)
             \<and> messages = map message_of_dry_run (take k (operation # rest))"
        by (rule exI[of _ "Suc k"]) (simp add: k res)
      with fsr s res Some show ?thesis by simp
    qed
  qed
qed

lemma concat_turns_fs_calls:
  "filter is_fs_call (concat (map (dry_run_turn silent log_file r) ops)) = []"
  by (induction ops) (simp_all add: dry_run_turn_fs_calls)

lemma concat_turns_raised:
  "\<not> list_ex raised (concat (map (dry_run_turn silent log_file None) ops))"
  by (induction ops) (simp_all add: dry_run_turn_raised)

text \<open>
  C8, amended. A dry run never calls \<open>os_makedirs\<close>, \<open>os_link\<close> or \<open>os_symlink\<close>: its
  result does not depend on them, and the trace gains no entry of such a call. Unless
  it is silent with a log file, it leaves the file system as it was. Each turn
  computes the dry-run message of its operation and delivers it: printed when not
  silent, appended as a line to the log when silent with a log file, dropped when
  silent without one. The call ends without an exception exactly when no print and no
  append of the call raised, which is always so when it is silent without a log file;
  the trace has then gained one turn for every operation, in the order of the list.
  Otherwise the delivery of the message of some operation \<open>k\<close> raised: the trace has
  gained the turns of the operations before \<open>k\<close>, then the failed delivery and nothing
  after it, and the exception leaves the call. The first component lists the messages
  of the turns that completed.
\<close>

theorem dry_run_frame:
  assumes "execute_operations os ops True silent log_file w = (messages, w', r)"
  shows "execute_operations (os\<lparr>os_makedirs := mk, os_link := lk, os_symlink := sl\<rparr>) ops True
           silent log_file w = (messages, w', r)
   \<and> filter is_fs_call (trace w') = filter is_fs_call (trace w)
   \<and> ((silent \<longrightarrow> log_file = None \<or> log_file = Some []) \<longrightarrow> fs w' = fs w)
   \<and> (silent \<and> (log_file = None \<or> log_file = Some []) \<longrightarrow> r = None)
   \<and> (\<exists>new. trace w' = trace w @ new \<and> (r = None) = (\<not> list_ex raised new))
   \<and> (case r of
        None \<Rightarrow>
          trace w' = trace w @ concat (map (dry_run_turn silent log_file None) ops)
          \<and> messages = map message_of_dry_run ops
      | Some e \<Rightarrow>
          (\<exists>k<length ops.
             trace w' = trace w @ concat (map (dry_run_turn silent log_file None) (take k ops))
                          @ dry_run_turn silent log_file (Some e) (ops ! k)
             \<and> messages = map message_of_dry_run (take k ops))
          \<and> (silent \<longrightarrow> (\<exists>f. log_file = Some f \<and> f \<noteq> [])))"
proof -
  note t = execute_dry_run_trace[OF assms]
  have c1: "execute_operations (os\<lparr>os_makedirs := mk, os_link := lk, os_symlink := sl\<rparr>) ops True
           silent log_file w = (messages, w', r)"
    using assms by (simp add: execute_dry_run_independent)
  from t have c3: "(silent \<longrightarrow> log_file = None \<or> log_file = Some []) \<longrightarrow> fs w' = fs w"
    by blast
  from t have c6: "case r of
        None \<Rightarrow>
          trace w' = trace w @ concat (map (dry_run_turn silent log_file None) ops)
          \<and> messages = map message_of_dry_run ops
      | Some e \<Rightarrow>
          (\<exists>k<length ops.
             trace w' = trace w @ concat (map (dry_run_turn silent log_file None) (take k ops))
                          @ dry_run_turn silent log_file (Some e) (ops ! k)
             \<and> messages = map message_of_dry_run (take k ops))
          \<and> (silent \<longrightarrow> (\<exists>f. log_file = Some f \<and> f \<noteq> []))"
    by blast
  have c25: "filter is_fs_call (trace w') = filter is_fs_call (trace w)
     \<and> (\<exists>new. trace w' = trace w @ new \<and> (r = None) = (\<not> list_ex raised new))"
  proof (cases r)
    case None
    with c6 have tr: "trace w' = trace w @ concat (map (dry_run_turn silent log_file None) ops)"
      by simp
    have "\<exists>new. trace w' = trace w @ new \<and> (r = None) = (\<not> list_ex raised new)"
      by (rule exI[of _ "concat (map (dry_run_turn silent log_file None) ops)"])
         (simp add: tr None concat_turns_raised)
    with tr show ?thesis by (simp add: concat_turns_fs_calls)
  next
    case (Some e)
    with c6 obtain k where k: "k < length ops"
      and tr: "trace w' = trace w @ concat (map (dry_run_turn silent log_file None) (take k ops))
                          @ dry_run_turn silent log_file (Some e) (ops ! k)"
      and s: "silent \<longrightarrow> (\<exists>f. log_file = Some f \<and> f \<noteq> [])"
      by auto
    from s have d: "delivery silent log_file (message_of_dry_run (ops ! k)) (Some e) \<noteq> []"
      by (auto simp: delivery_def)
    have "\<exists>new. trace w' = trace w @ new \<and> (r = None) = (\<not> list_ex raised new)"
      by (rule exI[of _ "concat (map (dry_run_turn silent log_file None) (take k ops))
                          @ dry_run_turn silent log_file (Some e) (ops ! k)"])
         (simp add: tr Some dry_run_turn_raised d)
    with tr show ?thesis by (simp add: concat_turns_fs_calls dry_run_turn_fs_calls)
  qed
  have c4: "silent \<and> (log_file = None \<or> log_file = Some []) \<longrightarrow> r = None"
  proof (cases r)
    case None
    then show ?thesis by simp
  next
    case (Some e)
    with c6 have "silent \<longrightarrow> (\<exists>f. log_file = Some f \<and> f \<noteq> [])" by simp
    then show ?thesis by auto
  qed
  from c1 c25 c3 c4 c6 show ?thesis by blast
qed


text \<open>The three operations of the example, printed; appended to a log; and appended
  to a log that cannot be written.\<close>

theorem dry_run_frame_witness:
  "snd (snd (execute_operations example_os sample_operations True False None
        \<lparr>fs = [], trace = []\<rparr>)) = None
   \<and> fs (fst (snd (execute_operations example_os sample_operations True False None
        \<lparr>fs = [], trace = []\<rparr>))) = []
   \<and> trace (fst (snd (execute_operations example_os sample_operations True False None
        \<lparr>fs = [], trace = []\<rparr>))) =
       [Advance, Print (dry_run_message ''hardlink'' ''/in/a.txt'' ''/out/docs/a.txt'') None,
        Advance, Print (dry_run_message ''hardlink'' ''/in/missing'' ''/out/docs/b.txt'') None,
        Advance, Print (dry_run_message ''hardlink'' ''/in/c.txt'' ''/out/docs/c.txt'') None]
   \<and> snd (snd (execute_operations example_os sample_operations True True (Some ''/tmp/log'')
        \<lparr>fs = [], trace = []\<rparr>)) = None
   \<and> filter is_output (trace (fst (snd (execute_operations example_os sample_operations True True
        (Some ''/tmp/log'') \<lparr>fs = [], trace = []\<rparr>)))) =
       [Append ''/tmp/log''
          (dry_run_message ''hardlink'' ''/in/a.txt'' ''/out/docs/a.txt'' @ [CHR 0x0A]) None,
        Append ''/tmp/log''
          (dry_run_message ''hardlink'' ''/in/missing'' ''/out/docs/b.txt'' @ [CHR 0x0A]) None,
        Append ''/tmp/log''
          (dry_run_message ''hardlink'' ''/in/c.txt'' ''/out/docs/c.txt'' @ [CHR 0x0A]) None]
   \<and> snd (snd (execute_operations readonly_os sample_operations True True (Some ''/ro/log'')
        \<lparr>fs = [], trace = []\<rparr>)) = Some (OSError ''[Errno 13] Permission denied'')
   \<and> (\<exists>k<length sample_operations.
         fst (execute_operations readonly_os sample_operations True True (Some ''/ro/log'')
           \<lparr>fs = [], trace = []\<rparr>) = map message_of_dry_run (take k sample_operations))"
proof -
  let ?w = "\<lparr>fs = [], trace = []\<rparr> :: string list world"
  let ?e = "OSError ''[Errno 13] Permission denied''"
  have turns: "concat (map (dry_run_turn False None None) sample_operations) =
       [Advance, Print (dry_run_message ''hardlink'' ''/in/a.txt'' ''/out/docs/a.txt'') None,
        Advance, Print (dry_run_message ''hardlink'' ''/in/missing'' ''/out/docs/b.txt'') None,
        Advance, Print (dry_run_message ''hardlink'' ''/in/c.txt'' ''/out/docs/c.txt'') None]"
    by (simp add: sample_operations_def dry_run_turn_def delivery_def message_of_dry_run_def)
  have turns': "filter is_output (concat (map (dry_run_turn True (Some ''/tmp/log'') None)
        sample_operations)) =
       [Append ''/tmp/log''
          (dry_run_message ''hardlink'' ''/in/a.txt'' ''/out/docs/a.txt'' @ [CHR 0x0A]) None,
        Append ''/tmp/log''
          (dry_run_message ''hardlink'' ''/in/missing'' ''/out/docs/b.txt'' @ [CHR 0x0A]) None,
        Append ''/tmp/log''
          (dry_run_message ''hardlink'' ''/in/c.txt'' ''/out/docs/c.txt'' @ [CHR 0x0A]) None]"
    by (simp add: sample_operations_def dry_run_turn_def delivery_def message_of_dry_run_def)
  obtain m1 w1 r1 where a:
    "execute_operations example_os sample_operations True False None ?w = (m1, w1, r1)"
    by (cases "execute_operations example_os sample_operations True False None ?w") auto
  have "snd (snd (execute_operations example_os sample_operations True False None ?w)) = None"
    by code_simp
  with a have r1: "r1 = None" by simp
  from dry_run_frame[OF a] r1 have
    a1: "fs w1 = []" and
    a2: "trace w1 = concat (map (dry_run_turn False None None) sample_operations)"
    by simp_all
  obtain m2 w2 r2 where b:
    "execute_operations example_os sample_operations True True (Some ''/tmp/log'') ?w = (m2, w2, r2)"
    by (cases "execute_operations example_os sample_operations True True (Some ''/tmp/log'') ?w") auto
  have "snd (snd (execute_operations example_os sample_operations True True (Some ''/tmp/log'') ?w))
      = None"
    by code_simp
  with b have r2: "r2 = None" by simp
  from dry_run_frame[OF b] r2 have
    b2: "trace w2 = concat (map (dry_run_turn True (Some ''/tmp/log'') None) sample_operations)"
    by simp
  obtain m3 w3 r3 where c:
    "execute_operations readonly_os sample_operations True True (Some ''/ro/log'') ?w = (m3, w3, r3)"
    by (cases "execute_operations readonly_os sample_operations True True (Some ''/ro/log'') ?w") auto
  have "snd (snd (execute_operations readonly_os sample_operations True True (Some ''/ro/log'') ?w))
      = Some ?e"
    by code_simp
  with c have r3: "r3 = Some ?e" by simp
  from dry_run_frame[OF c, where mk = "os_makedirs readonly_os" and lk = "os_link readonly_os"
      and sl = "os_symlink readonly_os"] r3 have
    c2: "\<exists>k<length sample_operations. m3 = map message_of_dry_run (take k sample_operations)"
    by auto
  show ?thesis
    unfolding a b c using r1 a1 a2 r2 b2 r3 c2 by (simp add: turns turns')
qed

text \<open>
  C8, as stated, fails. Silent with a log file, the dry run changes the file system:
  the three messages are appended to \<^verbatim>\<open>/tmp/log\<close>. Where the log cannot be written,
  the first append raises, the exception leaves the call, and the second and the third
  operation get no message. Silent without a log file, no message is delivered at all.
\<close>

theorem dry_run_counterexample:
  "fs (fst (snd (execute_operations example_os sample_operations True True (Some ''/tmp/log'')
     \<lparr>fs = [], trace = []\<rparr>))) = [''/tmp/log'', ''/tmp/log'', ''/tmp/log'']
   \<and> execute_operations readonly_os sample_operations True True (Some ''/ro/log'')
       \<lparr>fs = [], trace = []\<rparr> =
     ([], \<lparr>fs = [], trace = [Advance, Append ''/ro/log''
        (dry_run_message ''hardlink'' ''/in/a.txt'' ''/out/docs/a.txt'' @ [CHR 0x0A])
        (Some (OSError ''[Errno 13] Permission denied''))]\<rparr>,
      Some (OSError ''[Errno 13] Permission denied''))
   \<and> trace (fst (snd (execute_operations example_os sample_operations True True None
     \<lparr>fs = [], trace = []\<rparr>))) = [Advance, Advance, Advance]"
proof (intro conjI)
  show "fs (fst (snd (execute_operations example_os sample_operations True True (Some ''/tmp/log'')
     \<lparr>fs = [], trace = []\<rparr>))) = [''/tmp/log'', ''/tmp/log'', ''/tmp/log'']"
    by code_simp
  show "execute_operations readonly_os sample_operations True True (Some ''/ro/log'')
       \<lparr>fs = [], trace = []\<rparr> =
     ([], \<lparr>fs = [], trace = [Advance, Append ''/ro/log''
        (dry_run_message ''hardlink'' ''/in/a.txt'' ''/out/docs/a.txt'' @ [CHR 0x0A])
        (Some (OSError ''[Errno 13] Permission denied''))]\<rparr>,
      Some (OSError ''[Errno 13] Permission denied''))"
    by code_simp
  show "trace (fst (snd (execute_operations example_os sample_operations True True None
     \<lparr>fs = [], trace = []\<rparr>))) = [Advance, Advance, Advance]"
    by code_simp
qed

section \<open>Errors of a real run\<close>

text \<open>
  The \<^verbatim>\<open>try\<close> of lines 267 to 274 catches the exception of the link call, which
  becomes the message of the operation; the batch goes on, as the second operation of
  the example shows.
\<close>

lemma link_error_is_caught:
  assumes "os_makedirs os (dirname (destination operation)) (fs w) = (fs1, None)"
    and "(if link_type operation = ''hardlink'' then os_link os else os_symlink os)
           (source operation) (destination operation) fs1 = (fs2, Some e)"
  shows "fst (perform os False operation w) =
           Inr (error_message (link_type operation) (source operation) (destination operation) e)"
  using assms by (simp add: perform_def Let_def split: if_splits)

lemma link_error_does_not_end_the_batch:
  "execute_operations example_os sample_operations False False None \<lparr>fs = [], trace = []\<rparr> =
     ([created_message ''hardlink'' ''/in/a.txt'' ''/out/docs/a.txt'',
       error_message ''hardlink'' ''/in/missing'' ''/out/docs/b.txt''
         (OSError ''[Errno 2] No such file or directory''),
       created_message ''hardlink'' ''/in/c.txt'' ''/out/docs/c.txt''],
      \<lparr>fs = [''/out/docs'', ''/out/docs/a.txt'', ''/out/docs'', ''/out/docs'', ''/out/docs/c.txt''],
       trace = [Makedirs ''/out/docs'' None, Link ''/in/a.txt'' ''/out/docs/a.txt'' None, Advance,
                Print (created_message ''hardlink'' ''/in/a.txt'' ''/out/docs/a.txt'') None,
                Makedirs ''/out/docs'' None,
                Link ''/in/missing'' ''/out/docs/b.txt''
                  (Some (OSError ''[Errno 2] No such file or directory'')), Advance,
                Print (error_message ''hardlink'' ''/in/missing'' ''/out/docs/b.txt''
                  (OSError ''[Errno 2] No such file or directory'')) None,
                Makedirs ''/out/docs'' None, Link ''/in/c.txt'' ''/out/docs/c.txt'' None, Advance,
                Print (created_message ''hardlink'' ''/in/c.txt'' ''/out/docs/c.txt'') None]\<rparr>,
      None)"
  by code_simp

text \<open>
  C1 does not hold of the code. \<^verbatim>\<open>os.makedirs\<close> (line 265) stands before the
  \<^verbatim>\<open>try\<close>: when creating the parent directory of an operation raises, the exception
  leaves \<open>execute_operations\<close>. For the first operation of the list: no link is
  attempted, no message is computed or delivered, none of the later operations is
  attempted, and the call ends with the exception, whatever \<open>silent\<close> and \<open>log_file\<close>
  are.
\<close>

theorem makedirs_error_escapes:
  assumes "os_makedirs os (dirname (destination operation)) (fs w) = (fs1, Some e)"
  shows "execute_operations os (operation # rest) False silent log_file w =
           ([], \<lparr>fs = fs1, trace = trace w @ [Makedirs (dirname (destination operation)) (Some e)]\<rparr>,
            Some e)"
  using assms by (simp add: execute_one_def perform_def Let_def emit_def)

text \<open>Three operations into \<^verbatim>\<open>/out/docs\<close>, which cannot be created: the call ends at
  the first with \<^verbatim>\<open>Permission denied\<close>.\<close>

theorem makedirs_error_escapes_witness:
  "execute_operations readonly_os sample_operations False False None \<lparr>fs = [], trace = []\<rparr> =
     ([], \<lparr>fs = [], trace = [Makedirs ''/out/docs'' (Some (OSError ''[Errno 13] Permission denied''))]\<rparr>,
      Some (OSError ''[Errno 13] Permission denied''))"
proof -
  let ?w = "\<lparr>fs = [], trace = []\<rparr> :: string list world"
  let ?op = "\<lparr>source = ''/in/a.txt'', destination = ''/out/docs/a.txt'', link_type = ''hardlink''\<rparr>"
  have d: "dirname ''/out/docs/a.txt'' = ''/out/docs''" by code_simp
  have h: "os_makedirs readonly_os (dirname (destination ?op)) (fs ?w) =
             ([], Some (OSError ''[Errno 13] Permission denied''))"
    by (simp add: readonly_os_def)
  from makedirs_error_escapes[OF h, where silent = False and log_file = None]
  show ?thesis by (simp add: sample_operations_def d)
qed


section \<open>The name sanitizer: what it returns\<close>



lemma is_word_not_space: "is_space c \<Longrightarrow> \<not> is_word c"
  by (auto simp: is_word_def is_alnum_def is_space_def Let_def)






















































text \<open>Stop-words joined by underscores form one run of word characters, which the
  pattern does not match.\<close>

lemma underscore_joined_stop_words_kept:
  "sanitize_filename ''the_and'' 50 5 = ''the_and''"
  by code_simp

end
